theory Spec2Isabelle
  imports Complex_Main "HOL-Library.Stream"
begin

section \<open>Tensors, Python indexing and errors\<close>

text \<open>
  Tensors of the program are modelled by lists of reals (one dimension) and lists of
  rows (two dimensions); the arithmetic of float32 is read as arithmetic over the reals.
  The layers of the external network library (\<^verbatim>\<open>nn.Linear\<close>, \<^verbatim>\<open>nn.ReLU\<close>, ...) are
  parameters of the model: functions from a tensor to a tensor.  An exception of the
  source is a value \<open>Inl e\<close> of the result type.
\<close>

datatype py_error = TypeError | IndexError | RuntimeError | ZeroDivisionError | AttributeError

type_synonym vec = "real list"
type_synonym mat = "real list list"

text \<open>Python/torch indexing into a dimension of size \<open>n\<close>: a negative index counts
  from the end, an index outside \<open>[-n, n)\<close> raises \<^verbatim>\<open>IndexError\<close>.\<close>

definition py_index :: "nat \<Rightarrow> int \<Rightarrow> py_error + nat" where
  "py_index n i =
     (if 0 \<le> i \<and> i < int n then Inr (nat i)
      else if - int n \<le> i \<and> i < 0 then Inr (nat (int n + i))
      else Inl IndexError)"

text \<open>\<^verbatim>\<open>row[js] = v\<close> for a list \<open>js\<close> of indices.\<close>

fun index_put :: "vec \<Rightarrow> int list \<Rightarrow> real \<Rightarrow> py_error + vec" where
  "index_put row [] v = Inr row"
| "index_put row (j # js) v =
     (case py_index (length row) j of
        Inl e \<Rightarrow> Inl e
      | Inr k \<Rightarrow> index_put (row[k := v]) js v)"

text \<open>\<^verbatim>\<open>F.softmax\<close> along one row.\<close>

definition softmax :: "vec \<Rightarrow> vec" where
  "softmax xs = map (\<lambda>x. exp x / sum_list (map exp xs)) xs"

section \<open>models.py: LegalSoftmax\<close>

text \<open>
  \<^verbatim>\<open>
  def forward(self, x, possible_moves):
      legal_moves = possible_moves
      actions_tensor = torch.zeros(x.shape).to(x.device)
      batch_size = x.shape[0]
      for i in range(batch_size):
          actions_tensor[i, legal_moves[i]] = 1.0
      filtered_actions = x * actions_tensor
      filtered_actions[filtered_actions == 0] = -1000
      return F.softmax(filtered_actions, dim=1)
  \<close>
  The loop runs over the rows of \<open>actions_tensor\<close> from the first; \<^verbatim>\<open>legal_moves[i]\<close>
  raises when \<open>legal_moves\<close> has no row \<open>i\<close>.
\<close>

fun mark_legal :: "mat \<Rightarrow> int list list \<Rightarrow> py_error + mat" where
  "mark_legal [] legal_moves = Inr []"
| "mark_legal (r # rs) [] = Inl IndexError"
| "mark_legal (r # rs) (l # ls) =
     (case index_put r l 1 of
        Inl e \<Rightarrow> Inl e
      | Inr r' \<Rightarrow>
          (case mark_legal rs ls of
             Inl e \<Rightarrow> Inl e
           | Inr rs' \<Rightarrow> Inr (r' # rs')))"

definition actions_tensor :: "mat \<Rightarrow> int list list \<Rightarrow> py_error + mat" where
  "actions_tensor x legal_moves =
     mark_legal (map (\<lambda>row. replicate (length row) 0) x) legal_moves"

definition sentinel_fill :: "vec \<Rightarrow> vec" where
  "sentinel_fill row = map (\<lambda>v. if v = 0 then - 1000 else v) row"

definition filtered_actions :: "mat \<Rightarrow> int list list \<Rightarrow> py_error + mat" where
  "filtered_actions x legal_moves =
     (case actions_tensor x legal_moves of
        Inl e \<Rightarrow> Inl e
      | Inr m \<Rightarrow> Inr (map sentinel_fill (map2 (map2 (*)) x m)))"

definition LegalSoftmax_forward :: "mat \<Rightarrow> int list list \<Rightarrow> py_error + mat" where
  "LegalSoftmax_forward x possible_moves =
     (case filtered_actions x possible_moves of
        Inl e \<Rightarrow> Inl e
      | Inr f \<Rightarrow> Inr (map softmax f))"

text \<open>Action \<open>a\<close> is named by one of the indices \<open>js\<close> of a row of \<open>n\<close> actions.\<close>

definition is_legal :: "nat \<Rightarrow> int list \<Rightarrow> nat \<Rightarrow> bool" where
  "is_legal n js a = list_ex (\<lambda>j. py_index n j = Inr a) js"

section \<open>models.py: DuelingNetwork\<close>

text \<open>
  \<^verbatim>\<open>
  def forward(self, x, possible_moves):
      x = self.input_layer(x)
      advantage = self.advantage_layer(x)
      advantage = self.custom_softmax(advantage, possible_moves)
      value = self.value_layer(x)
      return advantage + value - advantage.mean()
  \<close>
  The three \<^verbatim>\<open>nn.Sequential\<close> stacks act on each row of the batch; the value stack ends
  in \<^verbatim>\<open>nn.Linear(24, 1)\<close>, whose one output is added to every action of its row
  (broadcasting).  \<^verbatim>\<open>advantage.mean()\<close> is the mean over every entry of the batch.
\<close>

record DuelingNetwork =
  input_layer :: "vec \<Rightarrow> vec"
  advantage_layer :: "vec \<Rightarrow> vec"
  value_layer :: "vec \<Rightarrow> real"

definition mean :: "mat \<Rightarrow> real" where
  "mean m = sum_list (concat m) / real (length (concat m))"

definition masked_advantage :: "DuelingNetwork \<Rightarrow> mat \<Rightarrow> int list list \<Rightarrow> py_error + mat" where
  "masked_advantage net x possible_moves =
     LegalSoftmax_forward (map (advantage_layer net) (map (input_layer net) x)) possible_moves"

text \<open>\<^verbatim>\<open>advantage + value\<close>, the sum before the mean is subtracted.\<close>

definition advantage_plus_value :: "DuelingNetwork \<Rightarrow> mat \<Rightarrow> mat \<Rightarrow> mat" where
  "advantage_plus_value net x advantage =
     map2 (\<lambda>row v. map (\<lambda>q. q + v) row) advantage
       (map (value_layer net) (map (input_layer net) x))"

definition DuelingNetwork_forward ::
  "DuelingNetwork \<Rightarrow> mat \<Rightarrow> int list list \<Rightarrow> py_error + mat" where
  "DuelingNetwork_forward net x possible_moves =
     (case masked_advantage net x possible_moves of
        Inl e \<Rightarrow> Inl e
      | Inr advantage \<Rightarrow>
          Inr (map (map (\<lambda>s. s - mean advantage)) (advantage_plus_value net x advantage)))"

text \<open>\<^verbatim>\<open>argmax\<close> restricted to a list of candidate actions: the first candidate of
  greatest value, \<open>None\<close> when there is no candidate.\<close>

fun argmax_from :: "vec \<Rightarrow> nat \<Rightarrow> nat list \<Rightarrow> nat" where
  "argmax_from ys best [] = best"
| "argmax_from ys best (k # ks) = argmax_from ys (if ys ! best < ys ! k then k else best) ks"

definition argmax_on :: "nat list \<Rightarrow> vec \<Rightarrow> nat option" where
  "argmax_on ks ys = (case ks of [] \<Rightarrow> None | k # ks' \<Rightarrow> Some (argmax_from ys k ks'))"

definition legal_actions :: "nat \<Rightarrow> int list \<Rightarrow> nat list" where
  "legal_actions n js = filter (is_legal n js) [0..<n]"

section \<open>agent.py: the parameters of the distributional support\<close>

text \<open>
  \<^verbatim>\<open>
  self.distr_params = distr_params
  self.distr_params["v_range"] = torch.linspace(self.distr_params["v_min"],
                                                self.distr_params["v_max"],
                                                self.distr_params["num_bins"]).to(self.device)
  \<close>
  The dictionary \<open>distr_params\<close> is a record; \<open>mk_distr_params\<close> is the dictionary as
  \<^verbatim>\<open>Agent.__init__\<close> leaves it.  \<^verbatim>\<open>torch.linspace(lo, hi, n)\<close> is the list of \<open>n\<close>
  equally spaced points from \<open>lo\<close> to \<open>hi\<close> (the one point \<open>lo\<close> when \<open>n = 1\<close>).
\<close>

record distr_params =
  v_min :: real
  v_max :: real
  num_bins :: nat
  v_range :: vec

definition linspace :: "real \<Rightarrow> real \<Rightarrow> nat \<Rightarrow> vec" where
  "linspace lo hi n = map (\<lambda>k. lo + real k * (hi - lo) / real (n - 1)) [0..<n]"

definition mk_distr_params :: "real \<Rightarrow> real \<Rightarrow> nat \<Rightarrow> distr_params" where
  "mk_distr_params lo hi n = \<lparr>v_min = lo, v_max = hi, num_bins = n, v_range = linspace lo hi n\<rparr>"

section \<open>models.py: DistributionalNetwork\<close>

text \<open>
  \<^verbatim>\<open>
  def action_distr(self, x, env):
      x = self.layers(x)
      x = x.reshape(-1, self.out_dim, self.num_bins)
      return nn.Softmax(dim=2)(x).clamp(1e-5)

  def forward(self, x, env):
      return torch.sum(self.action_distr(x, env) * self.v_range, dim=2)
  \<close>
  \<open>layers\<close> ends in \<^verbatim>\<open>nn.Linear(24, self.out_dim * self.num_bins)\<close>: it maps each state of
  the batch to \<open>out_dim * num_bins\<close> scores, which the reshape splits into \<open>out_dim\<close>
  rows of \<open>num_bins\<close> scores.  \<^verbatim>\<open>clamp(1e-5)\<close> is a clamp from below.  The parameter
  \<open>env\<close> is not used by either method.  The network is built from \<open>distr_params\<close> and
  keeps its \<open>num_bins\<close> and \<open>v_range\<close>.
\<close>

record DistributionalNetwork = distr_params +
  out_dim :: nat
  layers :: "vec \<Rightarrow> vec"

definition reshape_rows :: "nat \<Rightarrow> nat \<Rightarrow> vec \<Rightarrow> mat" where
  "reshape_rows rows cols v = map (\<lambda>a. take cols (drop (a * cols) v)) [0..<rows]"

definition clamp_min :: "real \<Rightarrow> vec \<Rightarrow> vec" where
  "clamp_min lo v = map (max lo) v"

definition action_distr :: "DistributionalNetwork \<Rightarrow> mat \<Rightarrow> 'e \<Rightarrow> mat list" where
  "action_distr net x env =
     map (\<lambda>s. map (\<lambda>row. clamp_min (1 / 100000) (softmax row))
                (reshape_rows (out_dim net) (num_bins net) (layers net s))) x"

definition DistributionalNetwork_forward :: "DistributionalNetwork \<Rightarrow> mat \<Rightarrow> 'e \<Rightarrow> mat" where
  "DistributionalNetwork_forward net x env =
     map (map (\<lambda>p. sum_list (map2 (*) p (v_range net)))) (action_distr net x env)"

section \<open>models.py: NoisyDuelingDistributionalNetwork\<close>

text \<open>
  \<^verbatim>\<open>
  def action_distr(self, x, possible_moves):
      batch_size = x.shape[0]
      x = self.input_layer(x.unsqueeze(1))
      advantage = self.advantage_layer_hidden(x.view(batch_size, -1))
      advantage = self.advantage_act(advantage)
      value = self.value_layer_hidden(x.view(batch_size, -1))
      value = self.value_layer_act(value)
      advantage = self.advantage_layer_out(advantage).reshape(-1, self.out_dim, self.num_bins)
      value = self.value_layer_out(value).reshape(-1, 1, self.num_bins)
      q = value + advantage - advantage.mean(dim=1, keepdim=True)
      return self.softmax(q).clamp(1e-5)
  \<close>
  For one board of the batch, \<open>conv_features\<close> is the convolution stack followed by the
  \<^verbatim>\<open>view\<close>, \<open>advantage_stack\<close> the two noisy advantage layers with their activation
  (\<open>out_dim * num_bins\<close> outputs) and \<open>value_stack\<close> the two noisy value layers
  (\<open>num_bins\<close> outputs).  The mean is taken over the actions, bin by bin.
\<close>

record 'x NoisyDuelingDistributionalNetwork =
  ndd_out_dim :: nat
  ndd_num_bins :: nat
  conv_features :: "'x \<Rightarrow> vec"
  advantage_stack :: "vec \<Rightarrow> vec"
  value_stack :: "vec \<Rightarrow> vec"

definition mean_dim1 :: "mat \<Rightarrow> nat \<Rightarrow> real" where
  "mean_dim1 advantage k = sum_list (map (\<lambda>row. row ! k) advantage) / real (length advantage)"

definition dueling_q :: "vec \<Rightarrow> mat \<Rightarrow> mat" where
  "dueling_q val advantage =
     map (\<lambda>row. map (\<lambda>k. val ! k + row ! k - mean_dim1 advantage k) [0..<length row]) advantage"

definition ndd_action_distr ::
  "'x NoisyDuelingDistributionalNetwork \<Rightarrow> 'x list \<Rightarrow> 'm \<Rightarrow> mat list" where
  "ndd_action_distr net x possible_moves =
     map (\<lambda>board.
            let feats = conv_features net board;
                advantage = reshape_rows (ndd_out_dim net) (ndd_num_bins net) (advantage_stack net feats);
                val = value_stack net feats
            in map (\<lambda>row. clamp_min (1 / 100000) (softmax row)) (dueling_q val advantage)) x"

section \<open>agent.py: the decay of epsilon in Agent.train\<close>

text \<open>
  \<^verbatim>\<open>
  for i in range(self.num_episodes):
      ...
      done = False
      ...
      while not done:
          ...
          self.eps = self.min_eps + (self.eps - self.min_eps) * np.exp(-self.eps_decay * i)
          ...
  \<close>
  One step of episode \<open>i\<close> replaces \<open>eps\<close> by \<open>eps_update min_eps eps_decay i eps\<close>.  The
  number of steps of an episode is decided by the environment: \<open>steps i\<close> is the number
  of steps of episode \<open>i\<close>.  \<open>train_eps min_eps eps_decay steps eps k\<close> is the value of
  \<^verbatim>\<open>self.eps\<close> when \<open>k\<close> episodes have been played.
\<close>

definition eps_update :: "real \<Rightarrow> real \<Rightarrow> nat \<Rightarrow> real \<Rightarrow> real" where
  "eps_update min_eps eps_decay i eps = min_eps + (eps - min_eps) * exp (- eps_decay * real i)"

fun train_eps :: "real \<Rightarrow> real \<Rightarrow> (nat \<Rightarrow> nat) \<Rightarrow> real \<Rightarrow> nat \<Rightarrow> real" where
  "train_eps min_eps eps_decay steps eps 0 = eps"
| "train_eps min_eps eps_decay steps eps (Suc k) =
     (eps_update min_eps eps_decay k ^^ steps k) (train_eps min_eps eps_decay steps eps k)"

section \<open>models.py: NoisyLayer\<close>

text \<open>
  \<^verbatim>\<open>
  def update_noise(self):
      self.eps_w.copy_(self.factorize_noise(self.out_dim).ger(self.factorize_noise(self.in_dim)))
      self.eps_b.copy_(self.factorize_noise(self.out_dim))

  def factorize_noise(self, size):
      x = torch.Tensor(np.random.normal(loc=0.0, scale=0.001, size=size))
      return x.sign().mul(x.abs().sqrt())

  def forward(self, x):
      return F.linear(x, self.mu_w + self.sigma_w * self.eps_w, self.mu_b + self.sigma_b * self.eps_b)
  \<close>
  The state of numpy's global generator is the stream of standard normal samples it
  will hand out next: \<^verbatim>\<open>np.random.normal(loc, scale, n)\<close> takes the first \<open>n\<close>
  samples \<open>z\<close> of the stream, returns \<open>loc + scale * z\<close> for each and leaves the rest of
  the stream.  Python evaluates the receiver of \<^verbatim>\<open>.ger(...)\<close> before its argument.  The
  fields \<open>in_dim\<close> and \<open>out_dim\<close> of the layer are written \<open>nl_in_dim\<close> and \<open>nl_out_dim\<close>.
\<close>

type_synonym rng = "real stream"

definition np_random_normal :: "real \<Rightarrow> real \<Rightarrow> nat \<Rightarrow> rng \<Rightarrow> vec \<times> rng" where
  "np_random_normal loc scale n g = (map (\<lambda>z. loc + scale * z) (stake n g), sdrop n g)"

record NoisyLayer =
  nl_in_dim :: nat
  nl_out_dim :: nat
  mu_w :: mat
  mu_b :: vec
  sigma_w :: mat
  sigma_b :: vec
  eps_w :: mat
  eps_b :: vec

definition sign_sqrt :: "real \<Rightarrow> real" where
  "sign_sqrt x = sgn x * sqrt \<bar>x\<bar>"

definition factorize_noise :: "nat \<Rightarrow> rng \<Rightarrow> vec \<times> rng" where
  "factorize_noise n g =
     (case np_random_normal 0 (1 / 1000) n g of (x, g') \<Rightarrow> (map sign_sqrt x, g'))"

definition ger :: "vec \<Rightarrow> vec \<Rightarrow> mat" where
  "ger u v = map (\<lambda>a. map (\<lambda>b. a * b) v) u"

definition update_noise :: "NoisyLayer \<Rightarrow> rng \<Rightarrow> NoisyLayer \<times> rng" where
  "update_noise layer g =
     (case factorize_noise (nl_out_dim layer) g of (f_out, g1) \<Rightarrow>
      case factorize_noise (nl_in_dim layer) g1 of (f_in, g2) \<Rightarrow>
      case factorize_noise (nl_out_dim layer) g2 of (f_b, g3) \<Rightarrow>
        (layer\<lparr>eps_w := ger f_out f_in, eps_b := f_b\<rparr>, g3))"

definition NoisyLayer_forward :: "NoisyLayer \<Rightarrow> vec \<Rightarrow> vec" where
  "NoisyLayer_forward layer x =
     map2 (\<lambda>row b. sum_list (map2 (*) row x) + b)
       (map2 (map2 (+)) (mu_w layer) (map2 (map2 (*)) (sigma_w layer) (eps_w layer)))
       (map2 (+) (mu_b layer) (map2 (*) (sigma_b layer) (eps_b layer)))"

section \<open>agent.py: the target distribution and the projection of get_distributional_loss\<close>

text \<open>
  \<^verbatim>\<open>
  reward = torch.tensor(reward).type(torch.float32).to(self.device)
  d_target = reward.clamp(self.distr_params["v_min"], self.distr_params["v_max"])
  if done:
      d_target = (self.gamma * self.distr_params["v_range"] + reward).clamp(self.distr_params["v_min"],
                                                                            self.distr_params["v_max"])
  v_step = (self.distr_params["v_max"] - self.distr_params["v_min"]) / (self.distr_params["num_bins"] - 1)
  delta = (d_target - self.distr_params["v_min"]) / v_step

  offset = torch.linspace(0,
                          (self.batch_size - 1) * self.distr_params["num_bins"],
                          self.batch_size).to(self.device)
  \<close>
  \<open>d_target\<close> is a tensor of no dimension (\<open>Scalar\<close>) when only the reward is clamped, and
  a tensor of \<open>num_bins\<close> entries (\<open>Vector\<close>) when the support is shifted and scaled.
  \<open>v_step\<close> is a quotient of Python numbers: it raises \<^verbatim>\<open>ZeroDivisionError\<close> for one bin.
  (For \<open>v_max = v_min\<close> the float division by \<open>v_step = 0\<close> gives \<open>inf\<close> or \<open>nan\<close>, where the
  reals give \<open>0\<close>; nothing below is stated for that case.)
\<close>

datatype target = Scalar real | Vector vec

definition clamp :: "real \<Rightarrow> real \<Rightarrow> real \<Rightarrow> real" where
  "clamp lo hi x = min (max x lo) hi"

definition d_target :: "distr_params \<Rightarrow> real \<Rightarrow> real \<Rightarrow> bool \<Rightarrow> target" where
  "d_target p gamma reward done =
     (if done
      then Vector (map (\<lambda>z. clamp (v_min p) (v_max p) (gamma * z + reward)) (v_range p))
      else Scalar (clamp (v_min p) (v_max p) reward))"

fun map_target :: "(real \<Rightarrow> real) \<Rightarrow> target \<Rightarrow> target" where
  "map_target f (Scalar r) = Scalar (f r)"
| "map_target f (Vector v) = Vector (map f v)"

definition delta :: "distr_params \<Rightarrow> target \<Rightarrow> py_error + target" where
  "delta p t =
     (if num_bins p = 1 then Inl ZeroDivisionError
      else let v_step = (v_max p - v_min p) / real_of_int (int (num_bins p) - 1)
           in Inr (map_target (\<lambda>d. (d - v_min p) / v_step) t))"

definition offset :: "nat \<Rightarrow> nat \<Rightarrow> vec" where
  "offset batch_size bins =
     linspace 0 (real_of_int ((int batch_size - 1) * int bins)) batch_size"

text \<open>
  \<^verbatim>\<open>
  next_action = self.model(next_state).argmax()
  next_action_distr = self.model.action_distr(next_state)[next_action, :self.batch_size]

  # Projection
  distr_projection = torch.zeros(next_action_distr.shape).to(self.device)
  distr_projection.reshape(-1).index_add_(0,
                                          (delta.floor() + offset).long(),
                                          next_action_distr * (delta.ceil() - delta))
  distr_projection.reshape(-1).index_add_(0,
                                          (delta.ceil() + offset).long(),
                                          next_action_distr * (delta - delta.floor()))
  \<close>
  \<open>action_distr\<close> returns a tensor of three dimensions (states, actions, bins).  The
  index \<open>[next_action, :batch_size]\<close> selects along the first dimension and keeps the
  first \<open>batch_size\<close> rows of the second, so \<open>next_action_distr\<close> has two dimensions:
  rows of \<open>num_bins\<close> masses.  A tensor of one dimension combines with a row entry by
  entry when the lengths agree or one of them has one entry (broadcasting), and with a
  tensor of two dimensions row by row; a tensor of no dimension combines like a tensor
  of one entry.

  \<^verbatim>\<open>index_add_(0, index, source)\<close> on a tensor of one dimension adds \<open>source[k]\<close> to
  the entry \<open>index[k]\<close>, for every \<open>k\<close> in turn; the source must have one dimension and
  as many entries as the index.  With a source of two dimensions it raises
  \<^verbatim>\<open>RuntimeError\<close>: outside dimension \<open>0\<close> the source must have the shape of the tensor.
  The tensor here is the flattened view \<^verbatim>\<open>distr_projection.reshape(-1)\<close>, of one
  dimension, and both sources are products with \<open>next_action_distr\<close>, of two.
  Python evaluates the index, then the source, then makes the call.  The result of the
  block is given as the flattened view.
  (\<^verbatim>\<open>get_distributional_loss\<close> obtains its distributions by
  \<^verbatim>\<open>self.model.action_distr(state)\<close>, \<^verbatim>\<open>self.model(next_state)\<close> and
  \<^verbatim>\<open>self.model.action_distr(next_state)\<close>, each a call with one argument of a method
  declared with two, see \<open>call2\<close> below.)
\<close>

definition next_action_rows :: "mat list \<Rightarrow> nat \<Rightarrow> nat \<Rightarrow> py_error + mat" where
  "next_action_rows distr next_action batch_size =
     (if next_action < length distr then Inr (take batch_size (distr ! next_action))
      else Inl IndexError)"

fun to_vec :: "target \<Rightarrow> vec" where
  "to_vec (Scalar r) = [r]"
| "to_vec (Vector v) = v"

definition broadcast2 :: "(real \<Rightarrow> real \<Rightarrow> real) \<Rightarrow> vec \<Rightarrow> vec \<Rightarrow> py_error + vec" where
  "broadcast2 f u v =
     (if length u = length v then Inr (map2 f u v)
      else if length u = 1 then Inr (map (f (u ! 0)) v)
      else if length v = 1 then Inr (map (\<lambda>a. f a (v ! 0)) u)
      else Inl RuntimeError)"

fun mul_rows :: "mat \<Rightarrow> vec \<Rightarrow> py_error + mat" where
  "mul_rows [] w = Inr []"
| "mul_rows (r # rs) w =
     (case broadcast2 (*) r w of
        Inl e \<Rightarrow> Inl e
      | Inr r' \<Rightarrow>
          (case mul_rows rs w of
             Inl e \<Rightarrow> Inl e
           | Inr rs' \<Rightarrow> Inr (r' # rs')))"

text \<open>\<^verbatim>\<open>delta.ceil() - delta\<close>, the weight of the mass added at \<open>floor(delta)\<close>, and
  \<^verbatim>\<open>delta - delta.floor()\<close>, the weight of the mass added at \<open>ceil(delta)\<close>.\<close>

definition lower_weight :: "real \<Rightarrow> real" where
  "lower_weight x = real_of_int \<lceil>x\<rceil> - x"

definition upper_weight :: "real \<Rightarrow> real" where
  "upper_weight x = x - real_of_int \<lfloor>x\<rfloor>"

definition long :: "real \<Rightarrow> int" where
  "long x = (if 0 \<le> x then \<lfloor>x\<rfloor> else \<lceil>x\<rceil>)"

datatype tensor = T1 vec | T2 mat

fun index_add_loop :: "vec \<Rightarrow> (int \<times> real) list \<Rightarrow> py_error + vec" where
  "index_add_loop self [] = Inr self"
| "index_add_loop self ((i, s) # rest) =
     (if 0 \<le> i \<and> i < int (length self)
      then index_add_loop (self[nat i := self ! nat i + s]) rest
      else Inl IndexError)"

definition index_add :: "vec \<Rightarrow> int list \<Rightarrow> tensor \<Rightarrow> py_error + vec" where
  "index_add self index source =
     (case source of
        T1 s \<Rightarrow>
          (if length index \<noteq> length s then Inl RuntimeError
           else index_add_loop self (zip index s))
      | T2 m \<Rightarrow> Inl RuntimeError)"

definition distr_projection :: "target \<Rightarrow> vec \<Rightarrow> mat \<Rightarrow> py_error + vec" where
  "distr_projection delta_t offs next_action_distr =
     (let d = to_vec delta_t;
          zeros = replicate (length (concat next_action_distr)) 0
      in case broadcast2 (+) (map (\<lambda>x. real_of_int \<lfloor>x\<rfloor>) d) offs of
           Inl e \<Rightarrow> Inl e
         | Inr lo \<Rightarrow>
       (case mul_rows next_action_distr (map lower_weight d) of
           Inl e \<Rightarrow> Inl e
         | Inr lo_mass \<Rightarrow>
       (case index_add zeros (map long lo) (T2 lo_mass) of
           Inl e \<Rightarrow> Inl e
         | Inr proj \<Rightarrow>
       (case broadcast2 (+) (map (\<lambda>x. real_of_int \<lceil>x\<rceil>) d) offs of
           Inl e \<Rightarrow> Inl e
         | Inr hi \<Rightarrow>
       (case mul_rows next_action_distr (map upper_weight d) of
           Inl e \<Rightarrow> Inl e
         | Inr hi_mass \<Rightarrow> index_add proj (map long hi) (T2 hi_mass))))))"

section \<open>agent.py: Agent with a plain or double DQN\<close>

text \<open>
  A call \<^verbatim>\<open>module(a)\<close> or \<^verbatim>\<open>module(a, b)\<close> hands its positional arguments to the
  \<^verbatim>\<open>forward\<close> of the module.  \<open>call2 f\<close> is the call of a method declared with two
  parameters besides \<^verbatim>\<open>self\<close>: with one argument Python raises \<^verbatim>\<open>TypeError\<close>.
  \<^verbatim>\<open>
  class DQN(nn.Module):
      def forward(self, x, possible_moves):
          x = self.layers(x)
          return x
  \<close>
\<close>

datatype ('a, 'b) call_args = Args1 'a | Args2 'a 'b

definition call2 :: "('a \<Rightarrow> 'b \<Rightarrow> 'r) \<Rightarrow> ('a, 'b) call_args \<Rightarrow> py_error + 'r" where
  "call2 f args = (case args of Args1 x \<Rightarrow> Inl TypeError | Args2 x y \<Rightarrow> Inr (f x y))"

definition DQN_forward :: "(vec \<Rightarrow> vec) \<Rightarrow> vec \<Rightarrow> 'p \<Rightarrow> vec" where
  "DQN_forward net x possible_moves = net x"

text \<open>
  The parameter tensors of the networks live in a heap, a map from addresses to values.
  A network object is the list of the addresses of its parameters; \<open>sequential\<close> is the
  \<^verbatim>\<open>nn.Sequential\<close> of a \<^verbatim>\<open>DQN\<close> as a function of the values of its parameters.  The
  optimizer holds the addresses it was built with.  What \<^verbatim>\<open>zero_grad\<close>,
  \<^verbatim>\<open>loss.backward()\<close> and Adam's \<^verbatim>\<open>step\<close> compute is the parameter \<open>adam\<close>: from the
  state of the optimizer, the heap and the arguments of \<^verbatim>\<open>update\<close> it gives the next
  state of the optimizer and a value for every address; \<^verbatim>\<open>optimizer.step()\<close> writes
  these values to the parameters the optimizer holds.

  The model covers the agents built with \<^verbatim>\<open>is_dueling\<close>, \<^verbatim>\<open>is_noisy\<close> and
  \<^verbatim>\<open>is_distributional\<close> all false, whose \<^verbatim>\<open>self.model\<close> is a \<^verbatim>\<open>DQN\<close>: with
  \<^verbatim>\<open>is_double\<close> the target network is always a \<^verbatim>\<open>DQN\<close>, and
  \<^verbatim>\<open>load_state_dict\<close> copies parameter by parameter between networks of the same
  class and sizes.
  \<^verbatim>\<open>
  self.model = DQN(self.obs_size, env.action_space.n).to(self.device)
  self.is_double = is_double
  self.loss = []
  if self.is_double:
      self.model_target = DQN(self.obs_size, env.action_space.n).to(self.device)
      self.model_target.load_state_dict(self.model.state_dict())
      self.model_target.eval()
  self.optimizer = optim.Adam(self.model.parameters(), lr=learning_rate)
  \<close>
\<close>

type_synonym addr = nat
type_synonym heap = "addr \<Rightarrow> vec"
type_synonym update_args = "real \<times> bool \<times> vec \<times> vec \<times> int"

record ('e, 'o) Agent =
  env :: 'e
  gamma :: real
  is_double :: bool
  sequential :: "vec list \<Rightarrow> vec \<Rightarrow> vec"
  heap :: heap
  model :: "addr list"
  model_target :: "addr list option"
  optimizer :: "addr list"
  opt_state :: 'o
  adam :: "'o \<Rightarrow> heap \<Rightarrow> update_args \<Rightarrow> 'o \<times> heap"
  loss :: "real list"

text \<open>A new module gets the addresses from \<open>base\<close> on, holding its initial values.\<close>

definition alloc :: "heap \<Rightarrow> nat \<Rightarrow> vec list \<Rightarrow> addr list \<times> heap" where
  "alloc h base ts =
     ([base..<base + length ts],
      (\<lambda>a. if base \<le> a \<and> a < base + length ts then ts ! (a - base) else h a))"

fun copy_params :: "heap \<Rightarrow> addr list \<Rightarrow> addr list \<Rightarrow> heap" where
  "copy_params h (d # ds) (s # ss) = copy_params (h(d := h s)) ds ss"
| "copy_params h ds ss = h"

definition load_state_dict :: "heap \<Rightarrow> addr list \<Rightarrow> addr list \<Rightarrow> py_error + heap" where
  "load_state_dict h dst src =
     (if length dst \<noteq> length src then Inl RuntimeError else Inr (copy_params h dst src))"

definition Agent_init ::
  "'e \<Rightarrow> real \<Rightarrow> bool \<Rightarrow> (vec list \<Rightarrow> vec \<Rightarrow> vec) \<Rightarrow> ('o \<Rightarrow> heap \<Rightarrow> update_args \<Rightarrow> 'o \<times> heap) \<Rightarrow> 'o
     \<Rightarrow> vec list \<Rightarrow> vec list \<Rightarrow> py_error + ('e, 'o) Agent" where
  "Agent_init e g dbl seq adm o0 init_model init_target =
     (case alloc (\<lambda>a. []) 0 init_model of (m, h1) \<Rightarrow>
        if dbl then
          (case alloc h1 (length init_model) init_target of (t, h2) \<Rightarrow>
             (case load_state_dict h2 t m of
                Inl err \<Rightarrow> Inl err
              | Inr h3 \<Rightarrow>
                  Inr \<lparr>env = e, gamma = g, is_double = dbl, sequential = seq, heap = h3,
                       model = m, model_target = Some t, optimizer = m, opt_state = o0,
                       adam = adm, loss = []\<rparr>))
        else
          Inr \<lparr>env = e, gamma = g, is_double = dbl, sequential = seq, heap = h1,
               model = m, model_target = None, optimizer = m, opt_state = o0,
               adam = adm, loss = []\<rparr>)"

text \<open>
  \<^verbatim>\<open>
  def get_target_double(self, next_state):
      action = self.model(next_state, self.env).argmax()
      return self.model_target(next_state)[action]

  def get_target(self, reward, done, next_state):
      # y = r if done
      target = torch.tensor(reward).type(torch.float32).to(self.device)
      if not done:
          # y = r + gamma * max Q(s',a') if not done
          if self.is_double:
              next_state_max_Q = self.get_target_double(next_state)
          else:
              next_state_max_Q = self.model(next_state, self.env).max()
          target = next_state_max_Q * self.gamma + reward
      return target
  \<close>
  \<^verbatim>\<open>max\<close> and \<^verbatim>\<open>argmax\<close> of a tensor without entries raise.
\<close>

definition tensor_max :: "vec \<Rightarrow> py_error + real" where
  "tensor_max q = (if q = [] then Inl RuntimeError else Inr (Max (set q)))"

definition tensor_argmax :: "vec \<Rightarrow> py_error + nat" where
  "tensor_argmax q = (if q = [] then Inl RuntimeError else Inr (argmax_from q 0 [1..<length q]))"

definition tensor_index :: "vec \<Rightarrow> int \<Rightarrow> py_error + real" where
  "tensor_index q i = (case py_index (length q) i of Inl e \<Rightarrow> Inl e | Inr k \<Rightarrow> Inr (q ! k))"

definition model_call :: "('e, 'o) Agent \<Rightarrow> (vec, 'e) call_args \<Rightarrow> py_error + vec" where
  "model_call ag args = call2 (DQN_forward (sequential ag (map (heap ag) (model ag)))) args"

definition model_target_call :: "('e, 'o) Agent \<Rightarrow> (vec, 'e) call_args \<Rightarrow> py_error + vec" where
  "model_target_call ag args =
     (case model_target ag of
        None \<Rightarrow> Inl AttributeError
      | Some t \<Rightarrow> call2 (DQN_forward (sequential ag (map (heap ag) t))) args)"

definition get_target_double :: "('e, 'o) Agent \<Rightarrow> vec \<Rightarrow> py_error + real" where
  "get_target_double ag next_state =
     (case model_call ag (Args2 next_state (env ag)) of
        Inl e \<Rightarrow> Inl e
      | Inr q \<Rightarrow>
     (case tensor_argmax q of
        Inl e \<Rightarrow> Inl e
      | Inr action \<Rightarrow>
     (case model_target_call ag (Args1 next_state) of
        Inl e \<Rightarrow> Inl e
      | Inr q_target \<Rightarrow> tensor_index q_target (int action))))"

definition get_target :: "('e, 'o) Agent \<Rightarrow> real \<Rightarrow> bool \<Rightarrow> vec \<Rightarrow> py_error + real" where
  "get_target ag reward done next_state =
     (if \<not> done then
        (case (if is_double ag then get_target_double ag next_state
               else (case model_call ag (Args2 next_state (env ag)) of
                       Inl e \<Rightarrow> Inl e
                     | Inr q \<Rightarrow> tensor_max q)) of
           Inl e \<Rightarrow> Inl e
         | Inr next_state_max_Q \<Rightarrow> Inr (next_state_max_Q * gamma ag + reward))
      else Inr reward)"

text \<open>
  \<^verbatim>\<open>
  def update(self, reward, done, next_state, state, action):
      if self.is_distributional:
          loss = self.get_distributional_loss(reward, done, next_state, state, action)
      else:
          target = self.get_target(reward, done, next_state)
          prediction = self.model(state, self.env)[action]
          loss = F.smooth_l1_loss(prediction, target)
      self.loss.append(loss)
      self.optimizer.zero_grad()
      loss.backward()
      self.optimizer.step()

      if self.is_noisy:
          self.model.update_noise()
  \<close>
  and, in the loop of \<^verbatim>\<open>train\<close> over the steps of episode \<open>i\<close>,
  \<^verbatim>\<open>
  self.update(reward, done, next_state, state, action)
  ...
  if not i % 20 and self.is_double:
      self.model_target.load_state_dict(self.model.state_dict())
  \<close>
\<close>

definition smooth_l1_loss :: "real \<Rightarrow> real \<Rightarrow> real" where
  "smooth_l1_loss prediction target =
     (if \<bar>prediction - target\<bar> < 1 then (prediction - target)\<^sup>2 / 2
      else \<bar>prediction - target\<bar> - 1 / 2)"

definition optimizer_step :: "('e, 'o) Agent \<Rightarrow> update_args \<Rightarrow> ('e, 'o) Agent" where
  "optimizer_step ag args =
     (case adam ag (opt_state ag) (heap ag) args of
        (o', new) \<Rightarrow>
          ag\<lparr>opt_state := o',
             heap := (\<lambda>a. if a \<in> set (optimizer ag) then new a else heap ag a)\<rparr>)"

definition update ::
  "('e, 'o) Agent \<Rightarrow> real \<Rightarrow> bool \<Rightarrow> vec \<Rightarrow> vec \<Rightarrow> int \<Rightarrow> py_error + ('e, 'o) Agent" where
  "update ag reward done next_state state action =
     (case get_target ag reward done next_state of
        Inl e \<Rightarrow> Inl e
      | Inr target \<Rightarrow>
     (case model_call ag (Args2 state (env ag)) of
        Inl e \<Rightarrow> Inl e
      | Inr q \<Rightarrow>
     (case tensor_index q action of
        Inl e \<Rightarrow> Inl e
      | Inr prediction \<Rightarrow>
          Inr (optimizer_step
                 (ag\<lparr>loss := loss ag @ [smooth_l1_loss prediction target]\<rparr>)
                 (reward, done, next_state, state, action)))))"

definition sync :: "('e, 'o) Agent \<Rightarrow> py_error + ('e, 'o) Agent" where
  "sync ag =
     (case model_target ag of
        None \<Rightarrow> Inl AttributeError
      | Some t \<Rightarrow>
          (case load_state_dict (heap ag) t (model ag) of
             Inl e \<Rightarrow> Inl e
           | Inr h \<Rightarrow> Inr (ag\<lparr>heap := h\<rparr>)))"

definition train_step :: "nat \<Rightarrow> ('e, 'o) Agent \<Rightarrow> update_args \<Rightarrow> py_error + ('e, 'o) Agent" where
  "train_step i ag args =
     (case args of (reward, done, next_state, state, action) \<Rightarrow>
        (case update ag reward done next_state state action of
           Inl e \<Rightarrow> Inl e
         | Inr ag1 \<Rightarrow> if i mod 20 = 0 \<and> is_double ag1 then sync ag1 else Inr ag1))"

text \<open>A run of the loop: the steps in order, each with the index of its episode.\<close>

fun train_steps :: "('e, 'o) Agent \<Rightarrow> (nat \<times> update_args) list \<Rightarrow> py_error + ('e, 'o) Agent" where
  "train_steps ag [] = Inr ag"
| "train_steps ag ((i, args) # rest) =
     (case train_step i ag args of
        Inl e \<Rightarrow> Inl e
      | Inr ag1 \<Rightarrow> train_steps ag1 rest)"

definition model_params :: "('e, 'o) Agent \<Rightarrow> vec list" where
  "model_params ag = map (heap ag) (model ag)"

definition target_params :: "('e, 'o) Agent \<Rightarrow> vec list option" where
  "target_params ag = map_option (map (heap ag)) (model_target ag)"

text \<open>The target network has parameters of its own, as many as the online network,
  and the optimizer holds the parameters of the online network.\<close>

definition separate_target :: "('e, 'o) Agent \<Rightarrow> bool" where
  "separate_target ag =
     (case model_target ag of
        None \<Rightarrow> False
      | Some t \<Rightarrow> distinct t \<and> set t \<inter> set (model ag) = {}
                 \<and> length t = length (model ag) \<and> optimizer ag = model ag
                 \<and> is_double ag)"

section \<open>Properties\<close>

subsection \<open>LegalSoftmax\<close>

lemma py_index_less: "py_index n j = Inr a \<Longrightarrow> a < n"
  by (auto simp: py_index_def split: if_splits)

lemma is_legal_Nil: "is_legal n [] a = False"
  by (simp add: is_legal_def)

lemma is_legal_Cons: "is_legal n (j # js) a = (py_index n j = Inr a \<or> is_legal n js a)"
  by (simp add: is_legal_def)

lemma index_put_length: "index_put row js v = Inr m \<Longrightarrow> length m = length row"
  by (induction js arbitrary: row) (auto split: sum.splits)

lemma index_put_nth:
  "index_put row js v = Inr m \<Longrightarrow> a < length row \<Longrightarrow>
   m ! a = (if is_legal (length row) js a then v else row ! a)"
proof (induction js arbitrary: row)
  case Nil
  then show ?case by (simp add: is_legal_Nil)
next
  case (Cons j js)
  from Cons.prems(1) obtain k where k: "py_index (length row) j = Inr k"
    and rest: "index_put (row[k := v]) js v = Inr m"
    by (auto split: sum.splits)
  have "m ! a = (if is_legal (length row) js a then v else row[k := v] ! a)"
    using Cons.IH [OF rest] Cons.prems(2) by simp
  then show ?case
    using k Cons.prems(2) by (auto simp: is_legal_Cons nth_list_update)
qed

lemma mark_legal_rows:
  "mark_legal rs ls = Inr m \<Longrightarrow>
   length m = length rs \<and> length rs \<le> length ls \<and>
   (\<forall>i<length rs. index_put (rs ! i) (ls ! i) 1 = Inr (m ! i))"
proof (induction rs ls arbitrary: m rule: mark_legal.induct)
  case (1 legal_moves)
  then show ?case by simp
next
  case (2 r rs)
  then show ?case by simp
next
  case (3 r rs l ls)
  from "3.prems" obtain r' rs' where r': "index_put r l 1 = Inr r'"
    and rs': "mark_legal rs ls = Inr rs'" and m: "m = r' # rs'"
    by (auto split: sum.splits)
  from "3.IH" [OF r' rs'] r' m show ?case
    by (auto simp: nth_Cons split: nat.splits)
qed

lemma filtered_actions_rows:
  assumes "filtered_actions x lm = Inr f"
  shows "length f = length x"
    and "i < length x \<Longrightarrow> length (f ! i) = length (x ! i)"
    and "i < length x \<Longrightarrow> a < length (x ! i) \<Longrightarrow>
         f ! i ! a = (if is_legal (length (x ! i)) (lm ! i) a \<and> x ! i ! a \<noteq> 0
                      then x ! i ! a else - 1000)"
proof -
  from assms obtain m where m: "actions_tensor x lm = Inr m"
    and f: "f = map sentinel_fill (map2 (map2 (*)) x m)"
    by (auto simp: filtered_actions_def split: sum.splits)
  from m have ml: "mark_legal (map (\<lambda>row. replicate (length row) 0) x) lm = Inr m"
    by (simp add: actions_tensor_def)
  from mark_legal_rows [OF ml] have len: "length m = length x"
    and rows: "\<And>i. i < length x \<Longrightarrow> index_put (replicate (length (x ! i)) 0) (lm ! i) 1 = Inr (m ! i)"
    by auto
  show "length f = length x" using f len by simp
  { assume i: "i < length x"
    from index_put_length [OF rows [OF i]] have li: "length (m ! i) = length (x ! i)" by simp
    show "length (f ! i) = length (x ! i)"
      using f len i li by (simp add: sentinel_fill_def)
    assume a: "a < length (x ! i)"
    have ma: "m ! i ! a = (if is_legal (length (x ! i)) (lm ! i) a then 1 else 0)"
      using index_put_nth [OF rows [OF i], of a] a by simp
    show "f ! i ! a = (if is_legal (length (x ! i)) (lm ! i) a \<and> x ! i ! a \<noteq> 0
                      then x ! i ! a else - 1000)"
      using f len i li a ma by (simp add: sentinel_fill_def)
  }
qed

lemma softmax_nth: "a < length xs \<Longrightarrow> softmax xs ! a = exp (xs ! a) / sum_list (map exp xs)"
  by (simp add: softmax_def)

lemma sum_list_two_le:
  fixes ys :: "real list"
  assumes "\<And>y. y \<in> set ys \<Longrightarrow> 0 \<le> y" and "a < length ys" and "l < length ys" and "a \<noteq> l"
  shows "ys ! a + ys ! l \<le> sum_list ys"
proof -
  have "sum_list ys = (\<Sum>k<length ys. ys ! k)"
    by (simp add: sum_list_sum_nth atLeast0LessThan)
  moreover have "(\<Sum>k\<in>{a, l}. ys ! k) \<le> (\<Sum>k<length ys. ys ! k)"
    using assms by (intro sum_mono2) auto
  ultimately show ?thesis using assms(4) by simp
qed

lemma softmax_two_bound:
  assumes "a < length xs" and "l < length xs" and "a \<noteq> l"
  shows "softmax xs ! a \<le> exp (xs ! a) / (exp (xs ! a) + exp (xs ! l))"
proof -
  have "\<And>y. y \<in> set (map exp xs) \<Longrightarrow> (0::real) \<le> y"
    by auto
  from sum_list_two_le [of "map exp xs" a l, OF this] assms
  have "exp (xs ! a) + exp (xs ! l) \<le> sum_list (map exp xs)"
    by simp
  moreover have "0 < exp (xs ! a) + exp (xs ! l)"
    by (simp add: add_pos_pos)
  ultimately show ?thesis
    using assms(1) by (simp add: softmax_nth frac_le)
qed




lemma is_legal_ex1: "\<not> is_legal 2 [0] 1" "is_legal 2 [0] 0"
  by (simp_all add: is_legal_def py_index_def)


lemma filtered_ex2: "filtered_actions [[0, 5, 2]] [[0, 2]] = Inr [[- 1000, - 1000, 2]]"
  by (simp add: filtered_actions_def actions_tensor_def py_index_def sentinel_fill_def)

lemma is_legal_ex2: "is_legal 3 [0, 2] 0" "\<not> is_legal 3 [0, 2] 1"
  by (simp_all add: is_legal_def py_index_def)





lemma fwd_ex4: "LegalSoftmax_forward [[0, 5]] [[0]] = Inr [softmax [- 1000, - 1000]]"
  by (simp add: LegalSoftmax_forward_def filtered_actions_def actions_tensor_def
      py_index_def sentinel_fill_def)

lemma softmax_two_equal: "softmax [c, c] ! 0 = 1 / 2"
proof -
  have "exp c / (exp c + exp c) = 1 / 2"
    using exp_gt_zero [of c] by (simp add: field_simps)
  then show ?thesis by (simp add: softmax_def)
qed

text \<open>
  Claim C10, as amended.  A legal action \<open>a\<close> of row \<open>i\<close> whose raw score is exactly \<open>0\<close>
  has the product \<open>0 * 1 = 0\<close> in \<open>filtered_actions\<close>, so it is given the sentinel \<open>-1000\<close>
  like every excluded action \<open>b\<close> of the row, and the softmax gives it the probability
  \<open>exp (-1000)\<close> over the sum of the row, the same as it gives to \<open>b\<close>.  Against every
  legal action \<open>l\<close> of the row whose raw score is not \<open>0\<close> this probability is at most
  \<open>exp (-1000 - x ! i ! l)\<close>: it is negligible only as far as this bound is.
\<close>

theorem LegalSoftmax_zero_scored_legal_masked:
  assumes f: "filtered_actions x legal_moves = Inr f"
    and i: "i < length x" and a: "a < length (x ! i)"
    and leg: "is_legal (length (x ! i)) (legal_moves ! i) a"
    and zero: "x ! i ! a = 0"
  shows "f ! i ! a = - 1000
       \<and> LegalSoftmax_forward x legal_moves = Inr (map softmax f)
       \<and> map softmax f ! i ! a = exp (- 1000) / sum_list (map exp (f ! i))
       \<and> (\<forall>b<length (x ! i). \<not> is_legal (length (x ! i)) (legal_moves ! i) b \<longrightarrow>
             f ! i ! b = - 1000 \<and> map softmax f ! i ! b = map softmax f ! i ! a)
       \<and> (\<forall>l<length (x ! i). is_legal (length (x ! i)) (legal_moves ! i) l \<and> x ! i ! l \<noteq> 0 \<longrightarrow>
             map softmax f ! i ! a \<le> exp (- 1000 - x ! i ! l))"
proof -
  have lf: "length f = length x" and li: "length (f ! i) = length (x ! i)"
    using filtered_actions_rows(1,2) [OF f] i by auto
  have fa: "f ! i ! a = - 1000"
    using filtered_actions_rows(3) [OF f i a] zero by simp
  have fw: "LegalSoftmax_forward x legal_moves = Inr (map softmax f)"
    using f by (simp add: LegalSoftmax_forward_def)
  have pa: "map softmax f ! i ! a = exp (- 1000) / sum_list (map exp (f ! i))"
    using i lf a li fa by (simp add: softmax_nth)
  have same: "f ! i ! b = - 1000 \<and> map softmax f ! i ! b = map softmax f ! i ! a"
    if b: "b < length (x ! i)" and ill: "\<not> is_legal (length (x ! i)) (legal_moves ! i) b" for b
  proof -
    have fb: "f ! i ! b = - 1000"
      using filtered_actions_rows(3) [OF f i b] ill by simp
    have "softmax (f ! i) ! b = softmax (f ! i) ! a"
      using a b li fa fb by (simp add: softmax_nth)
    with fb show ?thesis using i lf by simp
  qed
  have bound: "map softmax f ! i ! a \<le> exp (- 1000 - x ! i ! l)"
    if l: "l < length (x ! i)" and ll: "is_legal (length (x ! i)) (legal_moves ! i) l"
      and nz: "x ! i ! l \<noteq> 0" for l
  proof -
    have fl: "f ! i ! l = x ! i ! l"
      using filtered_actions_rows(3) [OF f i l] ll nz by simp
    have al: "a \<noteq> l" using zero nz by auto
    have "softmax (f ! i) ! a \<le> exp (f ! i ! a) / (exp (f ! i ! a) + exp (f ! i ! l))"
      using softmax_two_bound [of a "f ! i" l] a l li al by simp
    also have "\<dots> = exp (- 1000) / (exp (- 1000) + exp (x ! i ! l))"
      using fa fl by simp
    also have "\<dots> \<le> exp (- 1000) / exp (x ! i ! l)"
      by (intro divide_left_mono) (simp_all add: add_pos_pos)
    also have "\<dots> = exp (- 1000 - x ! i ! l)"
      by (simp add: exp_diff)
    finally show ?thesis using i lf by simp
  qed
  from fa fw pa same bound show ?thesis by blast
qed

theorem LegalSoftmax_zero_scored_legal_masked_witness:
  "filtered_actions [[0, 5, 2]] [[0, 2]] = Inr [[- 1000, - 1000, 2]]
   \<and> is_legal 3 [0, 2] 0 \<and> \<not> is_legal 3 [0, 2] 1 \<and> is_legal 3 [0, 2] 2
   \<and> LegalSoftmax_forward [[0, 5, 2]] [[0, 2]] = Inr (map softmax [[- 1000, - 1000, 2]])
   \<and> map softmax [[- 1000, - 1000, 2]] ! 0 ! 0
        = exp (- 1000) / sum_list (map exp [- 1000, - 1000, 2])
   \<and> map softmax [[- 1000, - 1000, 2]] ! 0 ! 1 = map softmax [[- 1000, - 1000, 2]] ! 0 ! 0
   \<and> map softmax [[- 1000, - 1000, 2]] ! 0 ! 0 \<le> exp (- 1002)"
proof -
  let ?x = "[[0, 5, 2]] :: mat"
  let ?lm = "[[0, 2]] :: int list list"
  have h2: "(0::nat) < length ?x" and h3: "(0::nat) < length (?x ! 0)"
    and h6: "?x ! 0 ! 0 = 0" and b: "(1::nat) < length (?x ! 0)"
    and l: "(2::nat) < length (?x ! 0)" and nz: "?x ! 0 ! 2 \<noteq> 0"
    by simp_all
  have h5: "is_legal (length (?x ! 0)) (?lm ! 0) 0"
    and h7: "\<not> is_legal (length (?x ! 0)) (?lm ! 0) 1"
    and h8: "is_legal (length (?x ! 0)) (?lm ! 0) 2"
    by (simp_all add: is_legal_def py_index_def)
  note w = LegalSoftmax_zero_scored_legal_masked [OF filtered_ex2 h2 h3 h5 h6]
  from w have "map softmax [[- 1000, - 1000, 2]] ! 0 ! 1 = map softmax [[- 1000, - 1000, 2]] ! 0 ! 0"
    using b h7 by blast
  moreover from w have "map softmax [[- 1000, - 1000, 2]] ! 0 ! 0
        = exp (- 1000) / sum_list (map exp ([[- 1000, - 1000, 2]] ! 0))"
    by blast
  moreover from w have "LegalSoftmax_forward [[0, 5, 2]] [[0, 2]] = Inr (map softmax [[- 1000, - 1000, 2]])"
    by blast
  moreover from w have "map softmax [[- 1000, - 1000, 2]] ! 0 ! 0 \<le> exp (- 1000 - ?x ! 0 ! 2)"
    using l h8 nz by blast
  moreover have "is_legal 3 [0, 2] 2"
    by (simp add: is_legal_def py_index_def)
  ultimately show ?thesis
    using filtered_ex2 is_legal_ex2 by simp
qed

text \<open>
  Claim C10 as stated fails in its last part: the probability that the zero-scored
  legal action shares with the excluded actions need not be negligible.  In the row
  \<open>[0, 5]\<close> with only action \<open>0\<close> legal, both entries get the sentinel and the legal
  action \<open>0\<close> has probability \<open>1/2\<close>.
\<close>

theorem LegalSoftmax_zero_scored_not_negligible:
  "is_legal 2 [0] 0
   \<and> LegalSoftmax_forward [[0, 5]] [[0]] = Inr [softmax [- 1000, - 1000]]
   \<and> softmax [- 1000, - 1000] ! 0 = 1 / 2"
  using is_legal_ex1(2) fwd_ex4 softmax_two_equal [of "- 1000"] by simp

subsection \<open>DuelingNetwork\<close>

lemma argmax_from_shift:
  "best < length ys \<Longrightarrow> list_all (\<lambda>k. k < length ys) ks \<Longrightarrow>
   argmax_from (map (\<lambda>s. s - c) ys) best ks = argmax_from ys best ks"
  by (induction ks arbitrary: best) auto

lemma argmax_on_shift:
  "list_all (\<lambda>k. k < length ys) ks \<Longrightarrow> argmax_on ks (map (\<lambda>s. s - c) ys) = argmax_on ks ys"
  by (cases ks) (auto simp: argmax_on_def argmax_from_shift)

lemma legal_actions_in_range: "list_all (\<lambda>k. k < n) (legal_actions n js)"
  by (simp add: legal_actions_def list_all_iff)

lemma DuelingNetwork_shift:
  assumes adv: "masked_advantage net x possible_moves = Inr advantage"
    and i: "i < length x"
    and pre: "pre = advantage_plus_value net x advantage ! i"
    and n: "n = length pre"
  shows "\<exists>out. DuelingNetwork_forward net x possible_moves = Inr out
         \<and> length (out ! i) = n
         \<and> (\<forall>a<n. \<forall>b<n. (out ! i ! a \<le> out ! i ! b) = (pre ! a \<le> pre ! b))
         \<and> argmax_on (legal_actions n (possible_moves ! i)) (out ! i)
             = argmax_on (legal_actions n (possible_moves ! i)) pre"
proof -
  let ?pv = "advantage_plus_value net x advantage"
  let ?out = "map (map (\<lambda>s. s - mean advantage)) ?pv"
  from adv obtain f where f: "filtered_actions (map (advantage_layer net) (map (input_layer net) x)) possible_moves = Inr f"
    and a: "advantage = map softmax f"
    by (auto simp: masked_advantage_def LegalSoftmax_forward_def split: sum.splits)
  have "length advantage = length x"
    using filtered_actions_rows(1) [OF f] a by simp
  then have lpv: "i < length ?pv"
    using i by (simp add: advantage_plus_value_def)
  have fw: "DuelingNetwork_forward net x possible_moves = Inr ?out"
    using adv by (simp add: DuelingNetwork_forward_def)
  have row: "?out ! i = map (\<lambda>s. s - mean advantage) pre"
    using lpv pre by simp
  have len: "length (?out ! i) = n"
    using row n by simp
  have rank: "\<forall>a<n. \<forall>b<n. (?out ! i ! a \<le> ?out ! i ! b) = (pre ! a \<le> pre ! b)"
    using row n by simp
  have "argmax_on (legal_actions n (possible_moves ! i)) (?out ! i)
      = argmax_on (legal_actions n (possible_moves ! i)) pre"
    unfolding row using legal_actions_in_range [of n] n
    by (intro argmax_on_shift) simp
  with fw len rank show ?thesis by blast
qed

text \<open>
  Claim C8.  For every row \<open>i\<close> of the batch, the output of the dueling network is the
  row of \<open>advantage + value\<close> shifted by the one scalar \<open>mean advantage\<close>: the order of any
  two actions is the same in both, and the arg-max over the legal actions of the row
  is the same.
\<close>

theorem DuelingNetwork_argmax_unchanged:
  assumes "masked_advantage net x possible_moves = Inr advantage"
    and "i < length x"
  shows "let pre = advantage_plus_value net x advantage ! i;
             n = length pre;
             legal = legal_actions n (possible_moves ! i)
         in \<exists>out. DuelingNetwork_forward net x possible_moves = Inr out
              \<and> length (out ! i) = n
              \<and> (\<forall>a<n. \<forall>b<n. (out ! i ! a \<le> out ! i ! b) = (pre ! a \<le> pre ! b))
              \<and> argmax_on legal (out ! i) = argmax_on legal pre"
  using DuelingNetwork_shift [OF assms refl refl] by (simp add: Let_def)

lemma masked_advantage_ex:
  "masked_advantage \<lparr>input_layer = \<lambda>v. v, advantage_layer = \<lambda>v. v, value_layer = \<lambda>v. 1\<rparr>
     [[3, 5]] [[0, 1]] = Inr [softmax [3, 5]]"
  by (simp add: masked_advantage_def LegalSoftmax_forward_def filtered_actions_def
      actions_tensor_def py_index_def sentinel_fill_def)

theorem DuelingNetwork_argmax_unchanged_witness:
  "masked_advantage \<lparr>input_layer = \<lambda>v. v, advantage_layer = \<lambda>v. v, value_layer = \<lambda>v. 1\<rparr>
     [[3, 5]] [[0, 1]] = Inr [softmax [3, 5]]
   \<and> (let net = \<lparr>input_layer = \<lambda>v. v, advantage_layer = \<lambda>v. v, value_layer = \<lambda>v. 1\<rparr>;
           pre = advantage_plus_value net [[3, 5]] [softmax [3, 5]] ! 0;
           n = length pre;
           legal = legal_actions n ([[0, 1]] ! 0)
       in \<exists>out. DuelingNetwork_forward net [[3, 5]] [[0, 1]] = Inr out
            \<and> length (out ! 0) = n
            \<and> (\<forall>a<n. \<forall>b<n. (out ! 0 ! a \<le> out ! 0 ! b) = (pre ! a \<le> pre ! b))
            \<and> argmax_on legal (out ! 0) = argmax_on legal pre)"
proof -
  have h: "(0::nat) < length ([[3, 5]] :: mat)" by simp
  from DuelingNetwork_argmax_unchanged [OF masked_advantage_ex h] masked_advantage_ex
  show ?thesis unfolding Let_def by blast
qed

subsection \<open>Distributional networks: the clamped softmax\<close>

lemma sum_exp_nonneg: "0 \<le> sum_list (map exp (xs :: real list))"
  by (rule sum_list_nonneg) auto

lemma sum_exp_pos: "xs \<noteq> [] \<Longrightarrow> 0 < sum_list (map exp (xs :: real list))"
  by (cases xs) (simp_all add: add_pos_nonneg sum_exp_nonneg)

lemma sum_list_map_divide:
  "sum_list (map (\<lambda>x. f x / c) xs) = sum_list (map f xs) / (c :: real)"
  by (induction xs) (simp_all add: add_divide_distrib)

lemma sum_list_softmax: "xs \<noteq> [] \<Longrightarrow> sum_list (softmax xs) = 1"
proof -
  assume ne: "xs \<noteq> []"
  have pos: "0 < sum_list (map exp xs)"
    using ne by (rule sum_exp_pos)
  have "sum_list (softmax xs) = sum_list (map exp xs) / sum_list (map exp xs)"
    by (simp add: softmax_def sum_list_map_divide)
  then show ?thesis using pos by simp
qed

lemma sum_list_clamp_min_ge: "sum_list v \<le> sum_list (clamp_min lo v)"
  unfolding clamp_min_def by (induction v) (auto simp: add_mono)

lemma sum_list_clamp_min_le:
  "0 \<le> lo \<Longrightarrow> list_all (\<lambda>p. 0 \<le> p) v \<Longrightarrow>
   sum_list (clamp_min lo v) \<le> sum_list v + real (length v) * lo"
  unfolding clamp_min_def by (induction v) (auto simp: algebra_simps max_def)

lemma softmax_nonneg: "list_all (\<lambda>p. 0 \<le> p) (softmax xs)"
  by (simp add: softmax_def list_all_iff sum_exp_nonneg)

lemma clamped_softmax_bounds:
  assumes "xs \<noteq> []"
  shows "length (clamp_min (1 / 100000) (softmax xs)) = length xs"
    and "\<forall>k<length xs. 1 / 100000 \<le> clamp_min (1 / 100000) (softmax xs) ! k"
    and "1 \<le> sum_list (clamp_min (1 / 100000) (softmax xs))"
    and "sum_list (clamp_min (1 / 100000) (softmax xs)) \<le> 1 + real (length xs) / 100000"
proof -
  show "length (clamp_min (1 / 100000) (softmax xs)) = length xs"
    by (simp add: clamp_min_def softmax_def)
  show "\<forall>k<length xs. 1 / 100000 \<le> clamp_min (1 / 100000) (softmax xs) ! k"
    by (simp add: clamp_min_def softmax_def)
  show "1 \<le> sum_list (clamp_min (1 / 100000) (softmax xs))"
    using sum_list_clamp_min_ge [of "softmax xs" "1 / 100000"] sum_list_softmax [OF assms]
    by simp
  have "length (softmax xs) = length xs" by (simp add: softmax_def)
  then show "sum_list (clamp_min (1 / 100000) (softmax xs)) \<le> 1 + real (length xs) / 100000"
    using sum_list_clamp_min_le [of "1 / 100000" "softmax xs"] softmax_nonneg [of xs]
      sum_list_softmax [OF assms]
    by simp
qed

lemma reshape_rows_nth:
  assumes "a < rows" and "length v = rows * cols"
  shows "length (reshape_rows rows cols v) = rows"
    and "length (reshape_rows rows cols v ! a) = cols"
proof -
  show "length (reshape_rows rows cols v) = rows"
    by (simp add: reshape_rows_def)
  have "Suc a * cols \<le> rows * cols"
    using assms(1) by (intro mult_le_mono1) simp
  then have "a * cols + cols \<le> length v"
    using assms(2) by simp
  then show "length (reshape_rows rows cols v ! a) = cols"
    using assms(1) by (simp add: reshape_rows_def)
qed

lemma action_distr_row:
  assumes "b < length x" and "a < out_dim net"
    and "length (layers net (x ! b)) = out_dim net * num_bins net"
  shows "\<exists>xs. length xs = num_bins net
           \<and> action_distr net x ev ! b ! a = clamp_min (1 / 100000) (softmax xs)"
proof -
  let ?rows = "reshape_rows (out_dim net) (num_bins net) (layers net (x ! b))"
  have la: "a < length ?rows" and lr: "length (?rows ! a) = num_bins net"
    using reshape_rows_nth [OF assms(2,3)] assms(2) by simp_all
  have "action_distr net x ev ! b ! a = clamp_min (1 / 100000) (softmax (?rows ! a))"
    using assms(1) la by (simp add: action_distr_def)
  with lr show ?thesis by blast
qed

lemma dueling_q_row:
  assumes "a < length advantage" and "length (advantage ! a) = n"
  shows "length (dueling_q val advantage ! a) = n"
  using assms by (simp add: dueling_q_def)

lemma ndd_action_distr_row:
  assumes "b < length x" and "a < ndd_out_dim net"
    and "length (advantage_stack net (conv_features net (x ! b))) = ndd_out_dim net * ndd_num_bins net"
  shows "\<exists>xs. length xs = ndd_num_bins net
           \<and> ndd_action_distr net x possible_moves ! b ! a = clamp_min (1 / 100000) (softmax xs)"
proof -
  let ?adv = "reshape_rows (ndd_out_dim net) (ndd_num_bins net)
                (advantage_stack net (conv_features net (x ! b)))"
  let ?q = "dueling_q (value_stack net (conv_features net (x ! b))) ?adv"
  have la: "a < length ?adv" and lr: "length (?adv ! a) = ndd_num_bins net"
    using reshape_rows_nth [OF assms(2,3)] assms(2) by simp_all
  have lq: "length ?q = length ?adv" by (simp add: dueling_q_def)
  have "length (?q ! a) = ndd_num_bins net"
    using dueling_q_row [OF la lr] .
  moreover have "ndd_action_distr net x possible_moves ! b ! a
      = clamp_min (1 / 100000) (softmax (?q ! a))"
    using assms(1) la lq by (simp add: ndd_action_distr_def Let_def)
  ultimately show ?thesis by blast
qed

lemma clamped_softmax_masses:
  assumes "0 < n" and "length xs = n" and "p = clamp_min (1 / 100000) (softmax xs)"
  shows "length p = n \<and> (\<forall>k<n. 1 / 100000 \<le> p ! k)
       \<and> 1 \<le> sum_list p \<and> sum_list p \<le> 1 + real n / 100000"
proof -
  have ne: "xs \<noteq> []" using assms(1,2) by auto
  from clamped_softmax_bounds [OF ne] assms(2,3) show ?thesis by simp
qed

text \<open>
  Claim C4, as amended.  For every state of the batch and every action, the masses
  returned by \<open>action_distr\<close> of the distributional network, and of the noisy dueling
  distributional network, are \<open>num_bins\<close> numbers, each at least \<open>1e-5\<close>, whose sum is at
  least \<open>1\<close> and at most \<open>1 + num_bins * 1e-5\<close>: the clamp follows the softmax and the
  masses are not normalised again.
\<close>

theorem action_distr_masses:
  assumes "0 < num_bins net" and "b < length x" and "a < out_dim net"
    and "length (layers net (x ! b)) = out_dim net * num_bins net"
    and "0 < ndd_num_bins net'" and "b' < length x'" and "a' < ndd_out_dim net'"
    and "length (advantage_stack net' (conv_features net' (x' ! b')))
           = ndd_out_dim net' * ndd_num_bins net'"
  shows "(let p = action_distr net x ev ! b ! a; n = num_bins net
          in length p = n \<and> (\<forall>k<n. 1 / 100000 \<le> p ! k)
             \<and> 1 \<le> sum_list p \<and> sum_list p \<le> 1 + real n / 100000)
       \<and> (let p = ndd_action_distr net' x' possible_moves ! b' ! a'; n = ndd_num_bins net'
          in length p = n \<and> (\<forall>k<n. 1 / 100000 \<le> p ! k)
             \<and> 1 \<le> sum_list p \<and> sum_list p \<le> 1 + real n / 100000)"
proof -
  from action_distr_row [OF assms(2,3,4), of ev] obtain xs where
    xs1: "length xs = num_bins net" and
    xs2: "action_distr net x ev ! b ! a = clamp_min (1 / 100000) (softmax xs)"
    by (elim exE conjE)
  from ndd_action_distr_row [OF assms(6,7,8), of possible_moves] obtain ys where
    ys1: "length ys = ndd_num_bins net'" and
    ys2: "ndd_action_distr net' x' possible_moves ! b' ! a' = clamp_min (1 / 100000) (softmax ys)"
    by (elim exE conjE)
  note c1 = clamped_softmax_masses [OF assms(1) xs1 xs2]
  note c2 = clamped_softmax_masses [OF assms(5) ys1 ys2]
  show ?thesis
    unfolding Let_def by (rule conjI) (rule c1, rule c2)
qed

theorem action_distr_masses_witness:
  "(let net = \<lparr>v_min = 0, v_max = 1, num_bins = 3, v_range = [0, 1 / 2, 1],
                 out_dim = 2, layers = \<lambda>s. [1, 2, 3, 4, 5, 6]\<rparr>;
        p = action_distr net [[1]] () ! 0 ! 1; n = num_bins net
    in length p = n \<and> (\<forall>k<n. 1 / 100000 \<le> p ! k)
       \<and> 1 \<le> sum_list p \<and> sum_list p \<le> 1 + real n / 100000)
   \<and> (let net' = \<lparr>ndd_out_dim = 2, ndd_num_bins = 3, conv_features = \<lambda>board. board,
                   advantage_stack = \<lambda>f. [1, 2, 3, 4, 5, 6], value_stack = \<lambda>f. [0, 0, 0]\<rparr>;
          p = ndd_action_distr net' [[1 :: real]] () ! 0 ! 1; n = ndd_num_bins net'
      in length p = n \<and> (\<forall>k<n. 1 / 100000 \<le> p ! k)
         \<and> 1 \<le> sum_list p \<and> sum_list p \<le> 1 + real n / 100000)"
proof -
  let ?net = "\<lparr>v_min = 0, v_max = 1, num_bins = 3, v_range = [0, 1 / 2, 1],
                 out_dim = 2, layers = \<lambda>s. [1, 2, 3, 4, 5, 6]\<rparr>"
  let ?net' = "\<lparr>ndd_out_dim = 2, ndd_num_bins = 3, conv_features = \<lambda>board :: vec. board,
                   advantage_stack = \<lambda>f. [1, 2, 3, 4, 5, 6], value_stack = \<lambda>f. [0, 0, 0]\<rparr>"
  let ?x = "[[1]] :: mat"
  have h1: "0 < num_bins ?net" and h2: "(0::nat) < length ?x" and h3: "(1::nat) < out_dim ?net"
    and h4: "length (layers ?net (?x ! 0)) = out_dim ?net * num_bins ?net"
    by simp_all
  have g1: "0 < ndd_num_bins ?net'" and g3: "(1::nat) < ndd_out_dim ?net'"
    and g4: "length (advantage_stack ?net' (conv_features ?net' (?x ! 0)))
               = ndd_out_dim ?net' * ndd_num_bins ?net'"
    by simp_all
  note w = action_distr_masses [OF h1 h2 h3 h4 g1 h2 g3 g4, of "()" "()"]
  show ?thesis
    unfolding Let_def using w [unfolded Let_def] .
qed

lemma exp_minus_20: "exp (- 20 :: real) \<le> 1 / 1000000"
proof -
  have "(2::real) \<le> exp 1"
    using exp_ge_add_one_self [of "1::real"] by simp
  then have "(2::real) ^ 20 \<le> exp 1 ^ 20"
    by (intro power_mono) simp_all
  also have "\<dots> = exp (20 :: real)"
    using exp_of_nat_mult [of 20 "1::real"] by simp
  finally have "(1000000 :: real) \<le> exp 20" by simp
  then have "1 / exp (20 :: real) \<le> 1 / 1000000"
    by (intro divide_left_mono) simp_all
  then show ?thesis by (simp add: exp_minus inverse_eq_divide)
qed

lemma sum_clamped_peaked:
  fixes t c :: real
  shows "1 / (1 + real n * exp t) + real n * c
           \<le> sum_list (clamp_min c (softmax (0 # replicate n t)))"
proof -
  let ?S = "1 + real n * exp t"
  have sm: "softmax (0 # replicate n t) = (1 / ?S) # replicate n (exp t / ?S)"
    by (simp add: softmax_def sum_list_replicate)
  have "sum_list (clamp_min c (softmax (0 # replicate n t)))
      = max c (1 / ?S) + real n * max c (exp t / ?S)"
    unfolding sm by (simp add: clamp_min_def sum_list_replicate)
  moreover have "real n * c \<le> real n * max c (exp t / ?S)"
    by (intro mult_left_mono) simp_all
  ultimately show ?thesis by simp
qed

text \<open>
  Claim C4 as stated fails in its first half.  With the 51 atoms of the repository's
  own configuration and the scores \<open>0, -20, ..., -20\<close> for the one action, the softmax
  puts less than \<open>1e-5\<close> on each of the last 50 atoms, the clamp raises each of them to
  \<open>1e-5\<close>, and the masses of the action sum to more than \<open>1.0004\<close>.
\<close>

theorem action_distr_masses_exceed_one:
  "1 + 4 / 10000 <
     sum_list (action_distr \<lparr>v_min = 0, v_max = 1, num_bins = 51, v_range = linspace 0 1 51, out_dim = 1,
                              layers = \<lambda>s. 0 # replicate 50 (- 20)\<rparr> [[1]] () ! 0 ! 0)"
proof -
  let ?net = "\<lparr>v_min = 0, v_max = 1, num_bins = 51, v_range = linspace 0 1 51, out_dim = 1,
                 layers = \<lambda>s. 0 # replicate 50 (- 20 :: real)\<rparr>"
  have row: "action_distr ?net [[1]] () ! 0 ! 0
      = clamp_min (1 / 100000) (softmax (0 # replicate 50 (- 20)))"
    by (simp add: action_distr_def reshape_rows_def)
  have "1 + real 50 * exp (- 20 :: real) \<le> 1 + 50 / 1000000"
    using exp_minus_20 by simp
  then have "1 / (1 + 50 / 1000000) \<le> 1 / (1 + real 50 * exp (- 20 :: real))"
    by (intro divide_left_mono) (simp_all add: add_pos_nonneg)
  moreover have "(1 + 4 / 10000 :: real) < 1 / (1 + 50 / 1000000) + real 50 * (1 / 100000)"
    by simp
  ultimately have "1 + 4 / 10000 < 1 / (1 + real 50 * exp (- 20 :: real)) + real 50 * (1 / 100000)"
    by linarith
  also have "\<dots> \<le> sum_list (clamp_min (1 / 100000) (softmax (0 # replicate 50 (- 20))))"
    by (rule sum_clamped_peaked)
  finally show ?thesis unfolding row .
qed

subsection \<open>The decay of epsilon\<close>

lemma eps_update_bounds:
  assumes "m \<le> e" and "0 \<le> d"
  shows "m \<le> eps_update m d i e" and "eps_update m d i e \<le> e"
proof -
  have r: "exp (- d * real i) \<le> 1" using assms(2) by simp
  have p: "0 \<le> exp (- d * real i)" by simp
  show "m \<le> eps_update m d i e"
    using assms(1) p by (simp add: eps_update_def)
  have "(e - m) * exp (- d * real i) \<le> (e - m) * 1"
    using assms(1) r by (intro mult_left_mono) simp_all
  then show "eps_update m d i e \<le> e"
    by (simp add: eps_update_def)
qed

lemma eps_funpow_bounds:
  assumes "m \<le> e" and "0 \<le> d"
  shows "m \<le> (eps_update m d i ^^ n) e \<and> (eps_update m d i ^^ n) e \<le> e"
proof (induction n)
  case 0
  then show ?case using assms(1) by simp
next
  case (Suc n)
  then show ?case
    using eps_update_bounds [where m = m and e = "(eps_update m d i ^^ n) e" and d = d and i = i]
      assms(2) by simp
qed

lemma train_eps_ge:
  assumes "m \<le> e" and "0 \<le> d"
  shows "m \<le> train_eps m d steps e k"
proof (induction k)
  case 0
  then show ?case using assms(1) by simp
next
  case (Suc k)
  then show ?case
    using eps_funpow_bounds [where m = m and e = "train_eps m d steps e k" and d = d
        and i = k and n = "steps k"] assms(2) by simp
qed

lemma train_eps_Suc_le:
  assumes "m \<le> e" and "0 \<le> d"
  shows "train_eps m d steps e (Suc k) \<le> train_eps m d steps e k"
  using eps_funpow_bounds [OF train_eps_ge [OF assms] assms(2),
      where steps1 = steps and k1 = k and i = k and n = "steps k"]
  by simp

lemma eps_funpow_first_step:
  assumes "m \<le> e" and "0 \<le> d" and "0 < n"
  shows "(eps_update m d i ^^ n) e - m \<le> (e - m) * exp (- d * real i)"
proof -
  from assms(3) obtain n' where n: "n = Suc n'" by (cases n) auto
  have "(eps_update m d i ^^ n) e = (eps_update m d i ^^ n') (eps_update m d i e)"
    unfolding n by (simp add: funpow_swap1)
  also have "\<dots> \<le> eps_update m d i e"
    using eps_funpow_bounds [OF eps_update_bounds(1) [OF assms(1,2)] assms(2)] by simp
  finally show ?thesis by (simp add: eps_update_def)
qed

lemma train_eps_geometric:
  assumes "m \<le> e" and "0 \<le> d" and "\<forall>k. 0 < steps k"
  shows "train_eps m d steps e k - m \<le> (e - m) * exp (- d) ^ (k - 1)"
proof (induction k)
  case 0
  then show ?case by simp
next
  case (Suc k)
  let ?t = "train_eps m d steps e k"
  have ge: "m \<le> ?t" using train_eps_ge [OF assms(1,2)] .
  have s1: "train_eps m d steps e (Suc k) - m \<le> (?t - m) * exp (- d * real k)"
    using eps_funpow_first_step [OF ge assms(2), where n = "steps k" and i = k] assms(3) by simp
  show ?case
  proof (cases k)
    case 0
    then show ?thesis using s1 by simp
  next
    case (Suc j)
    have "exp (- d * real k) \<le> exp (- d)"
      using assms(2) Suc by (simp add: mult_le_cancel_left1)
    then have "(?t - m) * exp (- d * real k) \<le> (?t - m) * exp (- d)"
      using ge by (intro mult_left_mono) simp_all
    also have "\<dots> \<le> ((e - m) * exp (- d) ^ (k - 1)) * exp (- d)"
      using Suc.IH by (intro mult_right_mono) simp_all
    also have "\<dots> = (e - m) * exp (- d) ^ (Suc k - 1)"
      using Suc by simp
    finally show ?thesis using s1 by linarith
  qed
qed

lemma train_eps_tendsto:
  assumes "m \<le> e" and "0 < d" and "\<forall>k. 0 < steps k"
  shows "train_eps m d steps e \<longlonglongrightarrow> m"
proof -
  let ?r = "exp (- d)"
  have r0: "0 < ?r" and r1: "?r < 1" using assms(2) by simp_all
  have d0: "0 \<le> d" using assms(2) by simp
  have up: "train_eps m d steps e k - m \<le> ((e - m) / ?r) * ?r ^ k" for k
  proof -
    have "?r ^ (k - 1) \<le> ?r ^ k / ?r"
    proof (cases k)
      case 0
      then show ?thesis using r0 r1 by (simp add: field_simps)
    next
      case (Suc j)
      then show ?thesis using r0 by simp
    qed
    then have "(e - m) * ?r ^ (k - 1) \<le> (e - m) * (?r ^ k / ?r)"
      using assms(1) by (intro mult_left_mono) simp_all
    then show ?thesis
      using train_eps_geometric [OF assms(1) d0 assms(3), where k = k] by simp
  qed
  have lo: "0 \<le> train_eps m d steps e k - m" for k
    using train_eps_ge [OF assms(1) d0, where steps = steps and k = k] by simp
  have "(\<lambda>k. ((e - m) / ?r) * ?r ^ k) \<longlonglongrightarrow> ((e - m) / ?r) * 0"
    using r0 r1 by (intro tendsto_mult_left LIMSEQ_realpow_zero) simp_all
  then have z: "(\<lambda>k. ((e - m) / ?r) * ?r ^ k) \<longlonglongrightarrow> 0" by simp
  have "(\<lambda>k. train_eps m d steps e k - m) \<longlonglongrightarrow> 0"
  proof (rule tendsto_sandwich [OF _ _ tendsto_const z])
    show "\<forall>\<^sub>F k in sequentially. 0 \<le> train_eps m d steps e k - m"
      using lo by (intro always_eventually allI)
    show "\<forall>\<^sub>F k in sequentially.
            train_eps m d steps e k - m \<le> ((e - m) / ?r) * ?r ^ k"
      using up by (intro always_eventually allI)
  qed
  then have "(\<lambda>k. (train_eps m d steps e k - m) + m) \<longlonglongrightarrow> 0 + m"
    by (intro tendsto_add tendsto_const)
  then show ?thesis by simp
qed

text \<open>
  Claim C7, as amended.  Given \<open>min_eps \<le> eps\<close> at the start and a decay rate
  \<open>eps_decay > 0\<close>, every step of every episode leaves \<open>eps\<close> at or above \<open>min_eps\<close> and does
  not increase it, so \<open>eps\<close> is non-increasing over the whole run; and since every episode
  has at least one step, the value of \<open>eps\<close> after \<open>k\<close> episodes tends to \<open>min_eps\<close> as
  \<open>k\<close> grows.
\<close>

theorem eps_nonincreasing_and_converges:
  assumes "min_eps \<le> eps" and "0 < eps_decay" and "\<forall>k. 0 < steps k"
  shows "(\<forall>k j. let e = (eps_update min_eps eps_decay k ^^ j)
                             (train_eps min_eps eps_decay steps eps k)
                in min_eps \<le> eps_update min_eps eps_decay k e
                   \<and> eps_update min_eps eps_decay k e \<le> e)
       \<and> (\<forall>k. train_eps min_eps eps_decay steps eps (Suc k)
                 \<le> train_eps min_eps eps_decay steps eps k)
       \<and> train_eps min_eps eps_decay steps eps \<longlonglongrightarrow> min_eps"
proof -
  have d0: "0 \<le> eps_decay" using assms(2) by simp
  have step: "min_eps \<le> eps_update min_eps eps_decay k e \<and> eps_update min_eps eps_decay k e \<le> e"
    if "e = (eps_update min_eps eps_decay k ^^ j) (train_eps min_eps eps_decay steps eps k)"
    for k j e
  proof -
    have "min_eps \<le> train_eps min_eps eps_decay steps eps k"
      using train_eps_ge [OF assms(1) d0] .
    then have "min_eps \<le> e"
      unfolding that using eps_funpow_bounds [OF _ d0] by blast
    then show ?thesis
      using eps_update_bounds [OF _ d0] by blast
  qed
  have mono: "train_eps min_eps eps_decay steps eps (Suc k)
                \<le> train_eps min_eps eps_decay steps eps k" for k
    using train_eps_Suc_le [OF assms(1) d0] .
  have lim: "train_eps min_eps eps_decay steps eps \<longlonglongrightarrow> min_eps"
    using train_eps_tendsto [OF assms] .
  from step mono lim show ?thesis
    unfolding Let_def by blast
qed

theorem eps_nonincreasing_and_converges_witness:
  "(\<forall>k j. let e = (eps_update (1 / 100) (5 / 1000) k ^^ j)
                          (train_eps (1 / 100) (5 / 1000) Suc 1 k)
            in 1 / 100 \<le> eps_update (1 / 100) (5 / 1000) k e
               \<and> eps_update (1 / 100) (5 / 1000) k e \<le> e)
   \<and> (\<forall>k. train_eps (1 / 100) (5 / 1000) Suc 1 (Suc k)
             \<le> train_eps (1 / 100) (5 / 1000) Suc 1 k)
   \<and> train_eps (1 / 100) (5 / 1000) Suc 1 \<longlonglongrightarrow> 1 / 100"
proof -
  have h1: "(1 / 100 :: real) \<le> 1" and h2: "(0 :: real) < 5 / 1000" and h3: "\<forall>k. 0 < Suc k"
    by simp_all
  show ?thesis
    using eps_nonincreasing_and_converges [OF h1 h2 h3] .
qed

lemma eps_update_no_decay: "eps_update m 0 i e = e"
  by (simp add: eps_update_def)

lemma train_eps_no_decay: "train_eps m 0 steps e k = e"
proof (induction k)
  case 0
  then show ?case by simp
next
  case (Suc k)
  have "eps_update m 0 k = (\<lambda>e. e)"
    by (rule ext) (rule eps_update_no_decay)
  then have "(eps_update m 0 k ^^ n) e = e" for n
    by (induction n) simp_all
  with Suc show ?case by simp
qed

text \<open>
  Claim C7 as stated fails: its only hypothesis is \<open>min_eps \<le> eps\<close>.  With the decay rate
  \<open>eps_decay = 0\<close>, \<open>eps = 1\<close> and \<open>min_eps = 0.01\<close>, \<open>eps\<close> stays at \<open>1\<close> for the whole run and
  does not approach \<open>min_eps\<close>.
\<close>

theorem eps_without_decay_does_not_converge:
  "(1 / 100 :: real) \<le> 1 \<and> \<not> train_eps (1 / 100) 0 Suc 1 \<longlonglongrightarrow> 1 / 100"
proof -
  have c: "train_eps (1 / 100) 0 Suc 1 = (\<lambda>k. 1)"
    by (rule ext) (rule train_eps_no_decay)
  have "\<not> (\<lambda>k :: nat. 1 :: real) \<longlonglongrightarrow> 1 / 100"
  proof
    assume "(\<lambda>k :: nat. 1 :: real) \<longlonglongrightarrow> 1 / 100"
    then have "(1 :: real) = 1 / 100"
      by (intro LIMSEQ_unique [OF tendsto_const])
    then show False by simp
  qed
  then show ?thesis unfolding c by simp
qed

subsection \<open>NoisyLayer: the draws of update_noise\<close>

lemma factorize_noise_eq:
  "factorize_noise n g = (map (\<lambda>z. sign_sqrt (z / 1000)) (stake n g), sdrop n g)"
  by (simp add: factorize_noise_def np_random_normal_def)

lemma update_noise_eq:
  "update_noise layer g =
     (layer\<lparr>eps_w := ger (map (\<lambda>z. sign_sqrt (z / 1000)) (stake (nl_out_dim layer) g))
                        (map (\<lambda>z. sign_sqrt (z / 1000))
                           (stake (nl_in_dim layer) (sdrop (nl_out_dim layer) g))),
            eps_b := map (\<lambda>z. sign_sqrt (z / 1000))
                       (stake (nl_out_dim layer) (sdrop (nl_out_dim layer + nl_in_dim layer) g))\<rparr>,
      sdrop (nl_out_dim layer + nl_in_dim layer + nl_out_dim layer) g)"
  by (simp add: update_noise_def factorize_noise_eq add.assoc)

text \<open>
  Claim C6, as amended.  A call of \<open>update_noise\<close> takes \<open>out + in + out\<close> samples from
  the generator, in three draws: the first \<open>out\<close> samples and the next \<open>in\<close> samples,
  each scaled by \<open>0.001\<close> around the mean \<open>0\<close> and transformed by \<open>sign(x) * sqrt(|x|)\<close>,
  are the two factors whose outer product is the weight noise; the bias noise is the
  transform of the \<open>out\<close> samples of a third draw, which follows the first two.  No other
  field of the layer changes.
\<close>

theorem update_noise_three_draws:
  assumes "update_noise layer g = (layer', g')"
    and "out = nl_out_dim layer" and "inp = nl_in_dim layer"
  shows "g' = sdrop (out + inp + out) g
       \<and> length (eps_w layer') = out \<and> length (eps_b layer') = out
       \<and> (\<forall>a<out. \<forall>b<inp. eps_w layer' ! a ! b
              = sign_sqrt (g !! a / 1000) * sign_sqrt (g !! (out + b) / 1000))
       \<and> (\<forall>a<out. eps_b layer' ! a = sign_sqrt (g !! (out + inp + a) / 1000))
       \<and> layer' = layer\<lparr>eps_w := eps_w layer', eps_b := eps_b layer'\<rparr>"
proof -
  from assms(1) have g': "g' = sdrop (out + inp + out) g"
    and l': "layer' = layer\<lparr>eps_w := ger (map (\<lambda>z. sign_sqrt (z / 1000)) (stake out g))
                        (map (\<lambda>z. sign_sqrt (z / 1000)) (stake inp (sdrop out g))),
            eps_b := map (\<lambda>z. sign_sqrt (z / 1000)) (stake out (sdrop (out + inp) g))\<rparr>"
    unfolding update_noise_eq assms(2,3) by simp_all
  have w: "eps_w layer' ! a ! b = sign_sqrt (g !! a / 1000) * sign_sqrt (g !! (out + b) / 1000)"
    if "a < out" "b < inp" for a b
    using that unfolding l' by (simp add: ger_def sdrop_snth)
  have b: "eps_b layer' ! a = sign_sqrt (g !! (out + inp + a) / 1000)" if "a < out" for a
    using that unfolding l' by (simp add: sdrop_snth)
  have lw: "length (eps_w layer') = out" and lb: "length (eps_b layer') = out"
    unfolding l' by (simp_all add: ger_def)
  have fr: "layer' = layer\<lparr>eps_w := eps_w layer', eps_b := eps_b layer'\<rparr>"
    unfolding l' by simp
  from g' lw lb w b fr show ?thesis by blast
qed

lemma sign_sqrt_values: "sign_sqrt 1 = 1" "sign_sqrt 4 = 2" "sign_sqrt 9 = 3"
proof -
  have "sqrt 4 = 2" by (rule real_sqrt_unique) simp_all
  moreover have "sqrt 9 = 3" by (rule real_sqrt_unique) simp_all
  ultimately show "sign_sqrt 1 = 1" "sign_sqrt 4 = 2" "sign_sqrt 9 = 3"
    by (simp_all add: sign_sqrt_def)
qed

lemma factorize_noise_ex: "factorize_noise 1 (1000 ## 4000 ## 9000 ## sconst 0) = ([1], 4000 ## 9000 ## sconst 0)"
  by (simp add: factorize_noise_eq sign_sqrt_values)

lemma update_noise_ex:
  "update_noise \<lparr>nl_in_dim = 1, nl_out_dim = 1, mu_w = [[0]], mu_b = [0],
        sigma_w = [[1 / 2]], sigma_b = [1 / 2], eps_w = [[0]], eps_b = [0]\<rparr> (1000 ## 4000 ## 9000 ## sconst 0) =
     (\<lparr>nl_in_dim = 1, nl_out_dim = 1, mu_w = [[0]], mu_b = [0],
        sigma_w = [[1 / 2]], sigma_b = [1 / 2], eps_w = [[0]], eps_b = [0]\<rparr>\<lparr>eps_w := [[2]], eps_b := [3]\<rparr>, sconst 0)"
  by (simp add: update_noise_def factorize_noise_eq sign_sqrt_values ger_def)

theorem update_noise_three_draws_witness:
  "update_noise \<lparr>nl_in_dim = 1, nl_out_dim = 1, mu_w = [[0]], mu_b = [0],
        sigma_w = [[1 / 2]], sigma_b = [1 / 2], eps_w = [[0]], eps_b = [0]\<rparr> (1000 ## 4000 ## 9000 ## sconst 0) = (\<lparr>nl_in_dim = 1, nl_out_dim = 1, mu_w = [[0]], mu_b = [0],
        sigma_w = [[1 / 2]], sigma_b = [1 / 2], eps_w = [[0]], eps_b = [0]\<rparr>\<lparr>eps_w := [[2]], eps_b := [3]\<rparr>, sconst 0)
   \<and> sconst (0 :: real) = sdrop (1 + 1 + 1) (1000 ## 4000 ## 9000 ## sconst 0)
   \<and> [[2 :: real]] ! 0 ! 0
        = sign_sqrt ((1000 ## 4000 ## 9000 ## sconst 0) !! 0 / 1000) * sign_sqrt ((1000 ## 4000 ## 9000 ## sconst 0) !! (1 + 0) / 1000)
   \<and> [3 :: real] ! 0 = sign_sqrt ((1000 ## 4000 ## 9000 ## sconst 0) !! (1 + 1 + 0) / 1000)"
proof -
  let ?L = "\<lparr>nl_in_dim = 1, nl_out_dim = 1, mu_w = [[0]], mu_b = [0],
        sigma_w = [[1 / 2]], sigma_b = [1 / 2], eps_w = [[0]], eps_b = [0]\<rparr>"
  have h2: "(1::nat) = nl_out_dim ?L" and h3: "(1::nat) = nl_in_dim ?L"
    by simp_all
  from update_noise_three_draws [OF update_noise_ex h2 h3] update_noise_ex
  show ?thesis by simp
qed

text \<open>
  Claim C6 as stated fails in its last part.  With a layer of one input and one output
  and a generator whose next samples are \<open>1000, 4000, 9000\<close>, the output-sized factor
  of the weight noise is \<open>[1]\<close> and the input-sized factor is \<open>[2]\<close>, but the bias noise
  is \<open>[3]\<close>: it comes from a third draw, not from the output-sized factor.
\<close>

theorem update_noise_bias_is_separate_draw:
  "fst (factorize_noise 1 (1000 ## 4000 ## 9000 ## sconst 0)) = [1]
   \<and> eps_w (fst (update_noise \<lparr>nl_in_dim = 1, nl_out_dim = 1, mu_w = [[0]], mu_b = [0],
        sigma_w = [[1 / 2]], sigma_b = [1 / 2], eps_w = [[0]], eps_b = [0]\<rparr> (1000 ## 4000 ## 9000 ## sconst 0))) = ger [1] [2]
   \<and> eps_b (fst (update_noise \<lparr>nl_in_dim = 1, nl_out_dim = 1, mu_w = [[0]], mu_b = [0],
        sigma_w = [[1 / 2]], sigma_b = [1 / 2], eps_w = [[0]], eps_b = [0]\<rparr> (1000 ## 4000 ## 9000 ## sconst 0))) = [3]
   \<and> eps_b (fst (update_noise \<lparr>nl_in_dim = 1, nl_out_dim = 1, mu_w = [[0]], mu_b = [0],
        sigma_w = [[1 / 2]], sigma_b = [1 / 2], eps_w = [[0]], eps_b = [0]\<rparr> (1000 ## 4000 ## 9000 ## sconst 0))) \<noteq> fst (factorize_noise 1 (1000 ## 4000 ## 9000 ## sconst 0))"
  unfolding update_noise_ex factorize_noise_ex by (simp add: ger_def)

subsection \<open>The distributional target and its projection\<close>

lemma mk_distr_params_3: 
  "mk_distr_params 0 1 3 = \<lparr>v_min = 0, v_max = 1, num_bins = 3, v_range = [0, 1 / 2, 1]\<rparr>"
  by (simp add: mk_distr_params_def linspace_def upt_rec)

lemma d_target_not_done: "d_target p g r False = Scalar (clamp (v_min p) (v_max p) r)"
  by (simp add: d_target_def)

lemma d_target_done:
  "d_target p g r True = Vector (map (\<lambda>z. clamp (v_min p) (v_max p) (g * z + r)) (v_range p))"
  by (simp add: d_target_def)

text \<open>
  Claim C1, evaluated on the code.  With the support \<open>[0, 1/2, 1]\<close>, discount \<open>0.9\<close> and
  reward \<open>0.5\<close>, a transition that is not terminal gets the clamped reward alone as its
  target, and a terminal transition gets the shifted and scaled support: the test on
  \<open>done\<close> selects the branches the other way round from the claim.
\<close>

theorem d_target_branches_at_input:
  "d_target (mk_distr_params 0 1 3) (9 / 10) (1 / 2) False = Scalar (1 / 2)
   \<and> d_target (mk_distr_params 0 1 3) (9 / 10) (1 / 2) True = Vector [1 / 2, 19 / 20, 1]"
  unfolding mk_distr_params_3 by (simp add: d_target_def clamp_def)

lemma integer_delta_weights:
  assumes "x \<in> \<int>"
  shows "lower_weight x = 0" and "upper_weight x = 0"
  using assms by (auto simp: lower_weight_def upper_weight_def elim!: Ints_cases)

lemma offset_one: "offset 1 bins = [0]"
  by (simp add: offset_def linspace_def)

lemma broadcast2_error: "broadcast2 f u v = Inl e \<Longrightarrow> e = RuntimeError"
  by (auto simp: broadcast2_def split: if_splits)

lemma mul_rows_error: "mul_rows m w = Inl e \<Longrightarrow> e = RuntimeError"
  by (induction m arbitrary: e) (auto split: sum.splits dest: broadcast2_error)

lemma index_add_two_dimensions: "index_add self index (T2 m) = Inl RuntimeError"
  by (simp add: index_add_def)

lemma distr_projection_raises:
  "distr_projection delta_t offs next_action_distr = Inl RuntimeError"
  by (auto simp: distr_projection_def Let_def index_add_two_dimensions
      split: sum.splits dest: broadcast2_error mul_rows_error)

text \<open>
  Claim C2, evaluated on the code.  With the support \<open>[0, 1/2, 1]\<close>, discount \<open>0.9\<close> and
  the terminal reward \<open>1\<close>, every target atom is clamped to \<open>1\<close> and has the integer grid
  coordinate \<open>2\<close>.  Both weights \<open>ceil(delta) - delta\<close> and \<open>delta - floor(delta)\<close> are then
  \<open>0\<close>, so both sources that the code builds from the masses \<open>[[0.2, 0.3, 0.5]]\<close> are
  \<open>[[0, 0, 0]]\<close>: no mass is sent to the grid atom \<open>2\<close>.  The block does not return
  either: the sources have two dimensions and \<^verbatim>\<open>index_add_\<close> raises
  \<^verbatim>\<open>RuntimeError\<close>.
\<close>

theorem distr_projection_integer_delta_at_input:
  "delta (mk_distr_params 0 1 3) (d_target (mk_distr_params 0 1 3) (9 / 10) 1 True)
     = Inr (Vector [2, 2, 2])
   \<and> offset 1 3 = [0]
   \<and> next_action_rows [[[1 / 5, 3 / 10, 1 / 2]]] 0 1 = Inr [[1 / 5, 3 / 10, 1 / 2]]
   \<and> mul_rows [[1 / 5, 3 / 10, 1 / 2]] (map lower_weight [2, 2, 2]) = Inr [[0, 0, 0]]
   \<and> mul_rows [[1 / 5, 3 / 10, 1 / 2]] (map upper_weight [2, 2, 2]) = Inr [[0, 0, 0]]
   \<and> distr_projection (Vector [2, 2, 2]) [0] [[1 / 5, 3 / 10, 1 / 2]] = Inl RuntimeError"
proof -
  have "delta (mk_distr_params 0 1 3) (d_target (mk_distr_params 0 1 3) (9 / 10) 1 True)
          = Inr (Vector [2, 2, 2])"
    unfolding mk_distr_params_3 by (simp add: delta_def d_target_def clamp_def)
  moreover have "next_action_rows [[[1 / 5, 3 / 10, 1 / 2]]] 0 1 = Inr [[1 / 5, 3 / 10, 1 / 2]]"
    by (simp add: next_action_rows_def)
  moreover have "mul_rows [[1 / 5, 3 / 10, 1 / 2]] (map lower_weight [2, 2, 2]) = Inr [[0, 0, 0]]"
    by (simp add: lower_weight_def broadcast2_def)
  moreover have "mul_rows [[1 / 5, 3 / 10, 1 / 2]] (map upper_weight [2, 2, 2]) = Inr [[0, 0, 0]]"
    by (simp add: upper_weight_def broadcast2_def)
  moreover have "distr_projection (Vector [2, 2, 2]) [0] [[1 / 5, 3 / 10, 1 / 2]] = Inl RuntimeError"
    by (simp add: distr_projection_def broadcast2_def index_add_def lower_weight_def)
  ultimately show ?thesis using offset_one by simp
qed

subsection \<open>The target of the temporal difference\<close>

lemma get_target_done: "get_target ag reward True next_state = Inr reward"
  by (simp add: get_target_def)

lemma get_target_plain:
  assumes "\<not> is_double ag" and "sequential ag (map (heap ag) (model ag)) next_state = q"
    and "q \<noteq> []"
  shows "get_target ag reward False next_state = Inr (Max (set q) * gamma ag + reward)"
  using assms
  by (simp add: get_target_def model_call_def call2_def DQN_forward_def tensor_max_def)

lemma get_target_double_raises:
  assumes "is_double ag"
  shows "\<exists>e. get_target ag reward False next_state = Inl e"
  using assms
  by (auto simp: get_target_def get_target_double_def model_target_call_def call2_def
      split: sum.splits option.splits)

lemma get_target_double_TypeError:
  assumes "is_double ag" and "model_target ag = Some t"
    and "sequential ag (map (heap ag) (model ag)) next_state \<noteq> []"
  shows "get_target ag reward False next_state = Inl TypeError"
  using assms
  by (simp add: get_target_def get_target_double_def model_call_def model_target_call_def
      call2_def DQN_forward_def tensor_argmax_def)

text \<open>
  Claim C3, evaluated on the code.  The agent has a double DQN whose two networks
  return the action values \<open>[0.5, 0.25]\<close>, and discount \<open>0.9\<close>.  For the terminal
  transition the target is the reward, and with \<open>is_double\<close> switched off the target of
  the transition that is not terminal is \<open>0.5 * 0.9 + 1\<close>, both as the claim says.  With
  the double DQN the transition that is not terminal has no target: the call
  \<^verbatim>\<open>self.model_target(next_state)\<close> gives one argument to \<^verbatim>\<open>DQN.forward\<close>, which
  needs two, and \<open>get_target\<close> raises \<^verbatim>\<open>TypeError\<close>.
\<close>

theorem get_target_double_at_input:
  "get_target \<lparr>env = (), gamma = 9 / 10, is_double = True, sequential = (\<lambda>ps x. ps ! 0),
       heap = (\<lambda>a. [1 / 2, 1 / 4]), model = [0], model_target = Some [1], optimizer = [0],
       opt_state = (), adam = (\<lambda>s h args. (s, h)), loss = []\<rparr> 1 False [1, 0] = Inl TypeError
   \<and> get_target (\<lparr>env = (), gamma = 9 / 10, is_double = True, sequential = (\<lambda>ps x. ps ! 0),
       heap = (\<lambda>a. [1 / 2, 1 / 4]), model = [0], model_target = Some [1], optimizer = [0],
       opt_state = (), adam = (\<lambda>s h args. (s, h)), loss = []\<rparr>\<lparr>is_double := False\<rparr>) 1 False [1, 0] = Inr (1 / 2 * (9 / 10) + 1)
   \<and> get_target \<lparr>env = (), gamma = 9 / 10, is_double = True, sequential = (\<lambda>ps x. ps ! 0),
       heap = (\<lambda>a. [1 / 2, 1 / 4]), model = [0], model_target = Some [1], optimizer = [0],
       opt_state = (), adam = (\<lambda>s h args. (s, h)), loss = []\<rparr> 1 True [1, 0] = Inr 1"
proof -
  let ?A = "\<lparr>env = (), gamma = 9 / 10, is_double = True, sequential = (\<lambda>ps x. ps ! 0),
       heap = (\<lambda>a. [1 / 2, 1 / 4]), model = [0], model_target = Some [1], optimizer = [0],
       opt_state = (), adam = (\<lambda>s h args. (s, h)), loss = []\<rparr> :: (unit, unit) Agent"
  have a: "get_target ?A 1 False [1, 0] = Inl TypeError"
    by (rule get_target_double_TypeError [where t = "[1]"]) simp_all
  have "get_target (?A\<lparr>is_double := False\<rparr>) 1 False [1, 0]
          = Inr (Max (set [1 / 2, 1 / 4]) * gamma (?A\<lparr>is_double := False\<rparr>) + 1)"
    by (rule get_target_plain) simp_all
  then have b: "get_target (?A\<lparr>is_double := False\<rparr>) 1 False [1, 0] = Inr (1 / 2 * (9 / 10) + 1)"
    by simp
  have c: "get_target ?A 1 True [1, 0] = Inr 1"
    by (rule get_target_done)
  from a b c show ?thesis by blast
qed

subsection \<open>The parameters of the target network\<close>

lemma copy_params_other: "a \<notin> set ds \<Longrightarrow> copy_params h ds ss a = h a"
  by (induction h ds ss rule: copy_params.induct) auto

lemma copy_params_dst:
  "distinct ds \<Longrightarrow> set ds \<inter> set ss = {} \<Longrightarrow> length ds = length ss \<Longrightarrow>
   map (copy_params h ds ss) ds = map h ss"
proof (induction h ds ss rule: copy_params.induct)
  case (1 h d ds s ss)
  have hd: "copy_params (h(d := h s)) ds ss d = h s"
    using "1.prems"(1) by (simp add: copy_params_other)
  have "map (copy_params (h(d := h s)) ds ss) ds = map (h(d := h s)) ss"
    using "1.prems" by (intro "1.IH") auto
  also have "\<dots> = map h ss"
    using "1.prems"(2) by auto
  finally show ?case using hd by simp
qed simp_all

lemma separate_target_fields:
  assumes "model_target ag' = model_target ag" and "model ag' = model ag"
    and "optimizer ag' = optimizer ag" and "is_double ag' = is_double ag"
  shows "separate_target ag' = separate_target ag"
  using assms by (simp add: separate_target_def split: option.splits)

lemma optimizer_step_fields:
  "model (optimizer_step ag args) = model ag"
  "model_target (optimizer_step ag args) = model_target ag"
  "optimizer (optimizer_step ag args) = optimizer ag"
  "is_double (optimizer_step ag args) = is_double ag"
  "a \<notin> set (optimizer ag) \<Longrightarrow> heap (optimizer_step ag args) a = heap ag a"
  by (simp_all add: optimizer_step_def split: prod.splits)

lemma optimizer_step_target:
  assumes "separate_target ag"
  shows "target_params (optimizer_step ag args) = target_params ag"
    and "separate_target (optimizer_step ag args)"
proof -
  from assms obtain t where t: "model_target ag = Some t"
    and disj: "set t \<inter> set (model ag) = {}" and opt: "optimizer ag = model ag"
    by (auto simp: separate_target_def split: option.splits)
  have "map (heap (optimizer_step ag args)) t = map (heap ag) t"
    using disj opt by (intro map_cong refl optimizer_step_fields(5)) auto
  then show "target_params (optimizer_step ag args) = target_params ag"
    using t by (simp add: target_params_def optimizer_step_fields)
  show "separate_target (optimizer_step ag args)"
    using assms separate_target_fields [of "optimizer_step ag args" ag]
    by (simp add: optimizer_step_fields)
qed

lemma update_target:
  assumes "separate_target ag" and "update ag reward done next_state state action = Inr ag1"
  shows "target_params ag1 = target_params ag" and "separate_target ag1"
proof -
  from assms(2) obtain l where
    ag1: "ag1 = optimizer_step (ag\<lparr>loss := l\<rparr>) (reward, done, next_state, state, action)"
    by (auto simp: update_def split: sum.splits)
  have s: "separate_target (ag\<lparr>loss := l\<rparr>)"
    using assms(1) separate_target_fields [of "ag\<lparr>loss := l\<rparr>" ag] by simp
  have "target_params (ag\<lparr>loss := l\<rparr>) = target_params ag"
    by (simp add: target_params_def)
  then show "target_params ag1 = target_params ag"
    unfolding ag1 using optimizer_step_target(1) [OF s] by simp
  show "separate_target ag1"
    unfolding ag1 using optimizer_step_target(2) [OF s] .
qed

lemma sync_target:
  assumes "separate_target ag" and "sync ag = Inr ag2"
  shows "target_params ag2 = Some (model_params ag2)" and "model_params ag2 = model_params ag"
    and "separate_target ag2"
proof -
  from assms(1) obtain t where t: "model_target ag = Some t"
    and dis: "distinct t" and disj: "set t \<inter> set (model ag) = {}"
    and len: "length t = length (model ag)"
    by (auto simp: separate_target_def split: option.splits)
  from assms(2) t len have ag2: "ag2 = ag\<lparr>heap := copy_params (heap ag) t (model ag)\<rparr>"
    by (simp add: sync_def load_state_dict_def)
  have m: "map (copy_params (heap ag) t (model ag)) (model ag) = map (heap ag) (model ag)"
    using disj by (intro map_cong refl copy_params_other) auto
  show "model_params ag2 = model_params ag"
    unfolding ag2 using m by (simp add: model_params_def)
  show "target_params ag2 = Some (model_params ag2)"
    unfolding ag2 using t m copy_params_dst [OF dis disj len, of "heap ag"]
    by (simp add: target_params_def model_params_def)
  show "separate_target ag2"
    unfolding ag2 using assms(1)
      separate_target_fields [of "ag\<lparr>heap := copy_params (heap ag) t (model ag)\<rparr>" ag]
    by simp
qed

lemma train_step_target:
  assumes "separate_target ag" and "train_step i ag args = Inr ag'"
  shows "target_params ag' = (if i mod 20 = 0 then Some (model_params ag') else target_params ag)"
    and "separate_target ag'"
proof -
  obtain r d ns st a where args: "args = (r, d, ns, st, a)"
    by (cases args) auto
  from assms(2) obtain ag1 where u: "update ag r d ns st a = Inr ag1"
    and res: "(if i mod 20 = 0 \<and> is_double ag1 then sync ag1 else Inr ag1) = Inr ag'"
    unfolding train_step_def args by (auto split: sum.splits)
  note t1 = update_target [OF assms(1) u]
  have dbl: "is_double ag1"
    using t1(2) by (auto simp: separate_target_def split: option.splits)
  show "target_params ag' = (if i mod 20 = 0 then Some (model_params ag') else target_params ag)"
  proof (cases "i mod 20 = 0")
    case True
    with res dbl have "sync ag1 = Inr ag'" by simp
    from sync_target(1) [OF t1(2) this] True show ?thesis by simp
  next
    case False
    with res have "ag' = ag1" by simp
    with t1(1) False show ?thesis by simp
  qed
  show "separate_target ag'"
  proof (cases "i mod 20 = 0")
    case True
    with res dbl have "sync ag1 = Inr ag'" by simp
    from sync_target(3) [OF t1(2) this] show ?thesis .
  next
    case False
    with res have "ag' = ag1" by simp
    with t1(2) show ?thesis by simp
  qed
qed

lemma train_steps_separate:
  "separate_target ag \<Longrightarrow> train_steps ag steps = Inr ag' \<Longrightarrow> separate_target ag'"
proof (induction steps arbitrary: ag)
  case Nil
  then show ?case by simp
next
  case (Cons st steps)
  obtain i args where st: "st = (i, args)" by (cases st) auto
  from Cons.prems(2) obtain ag1 where s1: "train_step i ag args = Inr ag1"
    and rest: "train_steps ag1 steps = Inr ag'"
    unfolding st by (auto split: sum.splits)
  from Cons.IH [OF train_step_target(2) [OF Cons.prems(1) s1] rest] show ?case .
qed

lemma alloc_fresh:
  "alloc h base ts = (m, h') \<Longrightarrow>
   m = [base..<base + length ts] \<and> map h' m = ts \<and> (\<forall>a<base. h' a = h a)"
  by (auto simp: alloc_def intro!: nth_equalityI)

lemma Agent_init_double:
  assumes "Agent_init e g True seq adm o0 init_model init_target = Inr ag0"
  shows "separate_target ag0" and "target_params ag0 = Some (model_params ag0)"
    and "model_params ag0 = init_model"
proof -
  let ?n = "length init_model"
  obtain m h1 where a1: "alloc (\<lambda>a. []) 0 init_model = (m, h1)" by (cases "alloc (\<lambda>a. []) 0 init_model")
  obtain t h2 where a2: "alloc h1 ?n init_target = (t, h2)" by (cases "alloc h1 ?n init_target")
  from alloc_fresh [OF a1] have m: "m = [0..<?n]" and hm: "map h1 m = init_model" by auto
  from alloc_fresh [OF a2] have t: "t = [?n..<?n + length init_target]"
    and keep: "\<forall>a<?n. h2 a = h1 a" by auto
  from assms a1 a2 obtain h3 where l: "load_state_dict h2 t m = Inr h3"
    and ag0: "ag0 = \<lparr>env = e, gamma = g, is_double = True, sequential = seq, heap = h3,
                     model = m, model_target = Some t, optimizer = m, opt_state = o0,
                     adam = adm, loss = []\<rparr>"
    by (auto simp: Agent_init_def split: sum.splits)
  from l have len: "length t = length m" and h3: "h3 = copy_params h2 t m"
    by (auto simp: load_state_dict_def split: if_splits)
  have dis: "distinct t" and disj: "set t \<inter> set m = {}"
    unfolding t m by auto
  show sep: "separate_target ag0"
    unfolding ag0 using dis disj len by (simp add: separate_target_def)
  have mm: "map h3 m = map h2 m"
    unfolding h3 using disj by (intro map_cong refl copy_params_other) auto
  have "map h3 t = map h2 m"
    unfolding h3 using copy_params_dst [OF dis disj len] .
  then show "target_params ag0 = Some (model_params ag0)"
    unfolding ag0 using mm by (simp add: target_params_def model_params_def)
  have "map h2 m = map h1 m"
    unfolding m using keep by (intro map_cong refl) auto
  then show "model_params ag0 = init_model"
    unfolding ag0 using mm hm by (simp add: model_params_def)
qed

lemma Agent_init_fields:
  assumes "Agent_init e g dbl seq adm o0 init_model init_target = Inr ag0"
  shows "env ag0 = e" and "gamma ag0 = g" and "is_double ag0 = dbl"
    and "sequential ag0 = seq" and "adam ag0 = adm"
  using assms
  by (auto simp: Agent_init_def split: prod.splits if_splits sum.splits)

lemma train_steps_no_sync:
  "separate_target ag \<Longrightarrow> train_steps ag steps = Inr ag' \<Longrightarrow>
   list_all (\<lambda>st. fst st mod 20 \<noteq> 0) steps \<Longrightarrow> target_params ag' = target_params ag"
proof (induction steps arbitrary: ag)
  case Nil
  then show ?case by simp
next
  case (Cons st steps)
  obtain i args where st: "st = (i, args)" by (cases st) auto
  from Cons.prems(2) obtain ag1 where s1: "train_step i ag args = Inr ag1"
    and rest: "train_steps ag1 steps = Inr ag'"
    unfolding st by (auto split: sum.splits)
  note t1 = train_step_target [OF Cons.prems(1) s1]
  have "target_params ag1 = target_params ag"
    using t1(1) Cons.prems(3) st by simp
  moreover have "target_params ag' = target_params ag1"
    using Cons.IH [OF t1(2) rest] Cons.prems(3) by simp
  ultimately show ?case by simp
qed

lemma update_ok:
  assumes "sequential ag (map (heap ag) (model ag)) state \<noteq> []"
  shows "\<exists>ag1. update ag reward True next_state state 0 = Inr ag1"
  using assms
  by (simp add: update_def get_target_done model_call_def call2_def DQN_forward_def
      tensor_index_def py_index_def)

text \<open>
  Claim C9.  Take an agent built with \<open>is_double\<close> and any state \<open>ag\<close> it reaches by
  steps of the training loop.  Right after construction the parameters of the target
  network equal those of the online network.  The optimizer step leaves the parameters
  of the target network as they are, whatever Adam computes.  After a whole step of
  the loop in episode \<open>i\<close> they equal the parameters of the online network if the step
  ends with the copy (\<open>i mod 20 = 0\<close>), and are unchanged otherwise; and they stay what
  they are through all further steps of episodes in which no copy is made.
\<close>

theorem target_params_change_only_by_sync:
  assumes "Agent_init e g True seq adm o0 init_model init_target = Inr ag0"
    and "train_steps ag0 steps = Inr ag"
    and "train_step i ag args = Inr ag'"
    and "train_steps ag' later = Inr ag''"
    and "list_all (\<lambda>st. fst st mod 20 \<noteq> 0) later"
  shows "target_params ag0 = Some (model_params ag0)
       \<and> target_params (optimizer_step ag args') = target_params ag
       \<and> target_params ag' = (if i mod 20 = 0 then Some (model_params ag') else target_params ag)
       \<and> target_params ag'' = target_params ag'"
proof -
  note init = Agent_init_double [OF assms(1)]
  have sep: "separate_target ag"
    using train_steps_separate [OF init(1) assms(2)] .
  have sep': "separate_target ag'"
    using train_step_target(2) [OF sep assms(3)] .
  from init(2) optimizer_step_target(1) [OF sep] train_step_target(1) [OF sep assms(3)]
    train_steps_no_sync [OF sep' assms(4,5)]
  show ?thesis by blast
qed

theorem target_params_change_only_by_sync_witness:
  "\<exists>ag0 ag' ag''. Agent_init () (9 / 10) True (\<lambda>ps x. ps ! 0) (\<lambda>s h args. (s, \<lambda>a. [7, 7])) ()
            [[1 / 2, 1 / 4]] [[0, 0]] = Inr ag0
     \<and> train_steps ag0 [] = Inr ag0
     \<and> train_step 0 ag0 (1, True, [1, 0], [1, 0], 0) = Inr ag'
     \<and> train_steps ag' [(1, (1, True, [1, 0], [1, 0], 0))] = Inr ag''
     \<and> target_params ag0 = Some [[1 / 2, 1 / 4]]
     \<and> target_params ag' = Some (model_params ag')
     \<and> target_params ag'' = Some (model_params ag')"
proof -
  obtain ag0 :: "(unit, unit) Agent" where i0: "Agent_init () (9 / 10) True (\<lambda>ps x. ps ! 0) (\<lambda>s h args. (s, \<lambda>a. [7, 7])) ()
            [[1 / 2, 1 / 4]] [[0, 0]] = Inr ag0"
    by (simp add: Agent_init_def alloc_def load_state_dict_def)
  note init = Agent_init_double [OF i0]
  note flds = Agent_init_fields [OF i0]
  have r0: "train_steps ag0 [] = Inr ag0" by simp
  have seq: "sequential ag (map (heap ag) (model ag)) [1, 0] \<noteq> []"
    if "sequential ag = (\<lambda>ps x. ps ! 0)" and "separate_target ag" and "model ag = [0]"
      and "heap ag 0 \<noteq> []" for ag :: "(unit, unit) Agent"
    using that by simp
  have m0: "model ag0 = [0]" and h0: "heap ag0 0 = [1 / 2, 1 / 4]"
    using i0 by (auto simp: Agent_init_def alloc_def load_state_dict_def split: if_splits)
  obtain ag1 where u1: "update ag0 1 True [1, 0] [1, 0] 0 = Inr ag1"
    using update_ok [of ag0 "[1, 0]" 1 "[1, 0]"] m0 h0 flds(4) by auto
  have dbl1: "is_double ag1" and sep1: "separate_target ag1"
    using update_target(2) [OF init(1) u1]
    by (auto simp: separate_target_def split: option.splits)
  have "\<exists>ag'. sync ag1 = Inr ag'"
    using sep1 by (auto simp: separate_target_def sync_def load_state_dict_def split: option.splits)
  then obtain ag' where s1: "train_step 0 ag0 (1, True, [1, 0], [1, 0], 0) = Inr ag'"
    using u1 dbl1 by (auto simp: train_step_def)
  note t1 = train_step_target [OF init(1) s1]
  have f1: "sequential ag1 = sequential ag0" "model ag1 = model ag0"
    "heap ag1 0 = [7, 7]"
    using u1 flds(5) m0 init(1)
    by (auto simp: update_def optimizer_step_def separate_target_def
        split: sum.splits prod.splits option.splits)
  from s1 u1 dbl1 sep1 obtain t where
    ag': "ag' = ag1\<lparr>heap := copy_params (heap ag1) t (model ag1)\<rparr>"
    and disj: "set t \<inter> set (model ag1) = {}"
    by (auto simp: train_step_def sync_def load_state_dict_def separate_target_def
        split: option.splits if_splits)
  have "0 \<notin> set t"
    using disj f1(2) m0 by auto
  then have f': "sequential ag' = sequential ag0" "model ag' = model ag0" "heap ag' 0 = heap ag1 0"
    unfolding ag' using f1 by (simp_all add: copy_params_other)
  obtain ag2 where u2: "update ag' 1 True [1, 0] [1, 0] 0 = Inr ag2"
    using update_ok [of ag' "[1, 0]" 1 "[1, 0]"] f' f1 m0 flds(4) by auto
  then have s2: "train_steps ag' [(1, (1, True, [1, 0], [1, 0], 0))] = Inr ag2"
    by (simp add: train_step_def)
  have ns: "list_all (\<lambda>st. fst st mod 20 \<noteq> 0) [(1 :: nat, (1 :: real, True, [1 :: real, 0], [1 :: real, 0], 0 :: int))]"
    by simp
  note main = target_params_change_only_by_sync [OF i0 r0 s1 s2 ns]
  have t0: "target_params ag0 = Some [[1 / 2, 1 / 4]]"
    using init(2,3) by simp
  have "target_params ag' = Some (model_params ag')"
    using main by simp
  moreover have "target_params ag2 = target_params ag'"
    using main by simp
  ultimately show ?thesis
    using i0 r0 s1 s2 t0 by auto
qed

end
